theory Spec2Isabelle
  imports Main "HOL-Library.Sublist"
begin

section \<open>JavaScript strings\<close>

text \<open>
  The embedding follows \<^verbatim>\<open>DocWorkflowManager\<close> (src/unnamed/part_004, lines 1-407) and
  the tool dispatcher of the MCP server (same file, lines 559-645).

  A JavaScript string is modelled as a \<^typ>\<open>string\<close>: every \<^typ>\<open>char\<close> stands for one
  UTF-16 code unit below 256. The library functions the source calls on strings are
  written out for that range.
\<close>

definition backslash :: char where
  "backslash = CHR 0x5C"

definition newline :: char where
  "newline = CHR 0x0A"

definition isDigit :: "char \<Rightarrow> bool" where
  \<comment> \<open>the regular expression class \<^verbatim>\<open>\d\<close>\<close>
  "isDigit c = (let n = (of_char c :: nat) in 48 \<le> n \<and> n \<le> 57)"

definition isAsciiLetter :: "char \<Rightarrow> bool" where
  \<comment> \<open>the regular expression class \<^verbatim>\<open>[a-zA-Z]\<close>\<close>
  "isAsciiLetter c = (let n = (of_char c :: nat) in (65 \<le> n \<and> n \<le> 90) \<or> (97 \<le> n \<and> n \<le> 122))"

definition isLineTerminator :: "char \<Rightarrow> bool" where
  \<comment> \<open>LF and CR (U+2028 and U+2029 are outside the modelled range)\<close>
  "isLineTerminator c = (let n = (of_char c :: nat) in n = 10 \<or> n = 13)"

definition isWhiteSpace :: "char \<Rightarrow> bool" where
  \<comment> \<open>the class \<^verbatim>\<open>\s\<close>, which is also what \<^verbatim>\<open>String.prototype.trim\<close> strips: TAB, LF, VT, FF,
      CR, SPACE and NBSP\<close>
  "isWhiteSpace c = (let n = (of_char c :: nat) in (9 \<le> n \<and> n \<le> 13) \<or> n = 32 \<or> n = 160)"

definition toLowerChar :: "char \<Rightarrow> char" where
  \<comment> \<open>\<^verbatim>\<open>A-Z\<close> and the Latin-1 capitals U+00C0..U+00DE (without the multiplication sign)\<close>
  "toLowerChar c = (let n = (of_char c :: nat) in
     if (65 \<le> n \<and> n \<le> 90) \<or> (192 \<le> n \<and> n \<le> 222 \<and> n \<noteq> 215) then char_of (n + 32) else c)"

definition toLowerCase :: "string \<Rightarrow> string" where
  "toLowerCase s = map toLowerChar s"

fun strIncludes :: "string \<Rightarrow> string \<Rightarrow> bool" where
  \<comment> \<open>\<^verbatim>\<open>s.includes(t)\<close>: \<open>t\<close> occurs in \<open>s\<close> as a contiguous substring\<close>
  "strIncludes [] t = (t = [])"
| "strIncludes (c # cs) t = (prefix t (c # cs) \<or> strIncludes cs t)"

definition trim :: "string \<Rightarrow> string" where
  "trim s = rev (dropWhile isWhiteSpace (rev (dropWhile isWhiteSpace s)))"

fun splitLines :: "string \<Rightarrow> string list" where
  \<comment> \<open>\<^verbatim>\<open>content.split('\n')\<close>: always at least one piece, the empty string included\<close>
  "splitLines [] = [[]]"
| "splitLines (c # cs) =
     (if c = newline then [] # splitLines cs
      else (case splitLines cs of l # ls \<Rightarrow> (c # l) # ls | [] \<Rightarrow> [[c]]))"

function replaceAll :: "string \<Rightarrow> string \<Rightarrow> string \<Rightarrow> string" where
  \<comment> \<open>\<^verbatim>\<open>s.replace(/pat/g, rep)\<close> for a pattern that is a literal text and a replacement without
      \<^verbatim>\<open>$\<close>: matches are found left to right and do not overlap\<close>
  "replaceAll pat rep [] = []"
| "replaceAll pat rep (c # cs) =
     (if pat \<noteq> [] \<and> prefix pat (c # cs)
      then rep @ replaceAll pat rep (drop (length pat) (c # cs))
      else c # replaceAll pat rep cs)"
  by pat_completeness auto
termination
  by (relation "measure (\<lambda>(pat, rep, s). length s)") (auto simp: neq_Nil_conv)

section \<open>Regular expressions of the source\<close>

text \<open>
  Both regular expressions of the source are sequences of one-character atoms, each taken
  once or under a greedy \<^verbatim>\<open>*\<close> or \<^verbatim>\<open>+\<close>, anchored at both ends. \<open>rmatch\<close> is the backtracking
  matcher of ECMAScript on such a sequence: a quantified atom first takes as many characters
  as it can and gives them back one at a time. It returns what each item matched, so that a
  capture group is read off by position.
\<close>

datatype CharClass =
    Lit char          \<comment> \<open>a literal character, escaped or not\<close>
  | AnyChar           \<comment> \<open>\<^verbatim>\<open>.\<close>: any character but a line terminator\<close>
  | Digit             \<comment> \<open>\<^verbatim>\<open>\d\<close>\<close>
  | Space             \<comment> \<open>\<^verbatim>\<open>\s\<close>\<close>
  | AsciiLetter       \<comment> \<open>\<^verbatim>\<open>[a-zA-Z]\<close>\<close>
  | NotSlash          \<comment> \<open>\<^verbatim>\<open>[^\/]\<close>\<close>

datatype Quant = Once | Star | Plus

datatype Item = Item CharClass Quant

fun inClass :: "CharClass \<Rightarrow> char \<Rightarrow> bool" where
  "inClass (Lit a) c = (c = a)"
| "inClass AnyChar c = (\<not> isLineTerminator c)"
| "inClass Digit c = isDigit c"
| "inClass Space c = isWhiteSpace c"
| "inClass AsciiLetter c = isAsciiLetter c"
| "inClass NotSlash c = (c \<noteq> CHR ''/'')"

fun extendFirst :: "char \<Rightarrow> string list option \<Rightarrow> string list option" where
  \<comment> \<open>the character joins what the item at the head has matched\<close>
  "extendFirst x (Some (m # ms)) = Some ((x # m) # ms)"
| "extendFirst x _ = None"

fun rmatch :: "Item list \<Rightarrow> string \<Rightarrow> string list option" where
  "rmatch [] s = (if s = [] then Some [] else None)"
| "rmatch (Item cl Once # r) [] = None"
| "rmatch (Item cl Once # r) (x # xs) =
     (if inClass cl x then map_option (Cons [x]) (rmatch r xs) else None)"
| "rmatch (Item cl Plus # r) [] = None"
| "rmatch (Item cl Plus # r) (x # xs) =
     (if inClass cl x then extendFirst x (rmatch (Item cl Star # r) xs) else None)"
| "rmatch (Item cl Star # r) [] = map_option (Cons []) (rmatch r [])"
| "rmatch (Item cl Star # r) (x # xs) =
     (if inClass cl x
      then (case extendFirst x (rmatch (Item cl Star # r) xs) of
              Some ms \<Rightarrow> Some ms
            | None \<Rightarrow> map_option (Cons []) (rmatch r (x # xs)))
      else map_option (Cons []) (rmatch r (x # xs)))"

definition regexTest :: "Item list \<Rightarrow> string \<Rightarrow> bool" where
  \<comment> \<open>\<^verbatim>\<open>regex.test(s)\<close> for an anchored regular expression\<close>
  "regexTest r s = (rmatch r s \<noteq> None)"

subsection \<open>Reading a regular expression from its source text\<close>

text \<open>
  \<^verbatim>\<open>new RegExp(text)\<close> is modelled on the fragment that the glob translation produces from
  patterns made of literal characters, \<^verbatim>\<open>*\<close>, \<^verbatim>\<open>?\<close> and \<^verbatim>\<open>.\<close>: an atom is an escaped
  punctuation character, the class \<^verbatim>\<open>[^\/]\<close>, a dot, or a character that is not a syntax
  character; an atom may be followed by \<^verbatim>\<open>*\<close> or \<^verbatim>\<open>+\<close>. Any other text gives \<open>None\<close>:
  there JavaScript either throws a SyntaxError or uses a construct outside the fragment.
\<close>

definition isSyntaxChar :: "char \<Rightarrow> bool" where
  "isSyntaxChar c = (c \<in> set ''^$.*+?()[]{}|/'' \<or> c = backslash)"

definition readAtom :: "string \<Rightarrow> (CharClass \<times> string) option" where
  "readAtom s =
     (case s of
        [] \<Rightarrow> None
      | c # cs \<Rightarrow>
          if c = backslash then
            (case cs of
               [] \<Rightarrow> None
             | e # rest \<Rightarrow> if isSyntaxChar e then Some (Lit e, rest) else None)
          else if c = CHR ''['' then
            (if take 4 cs = [CHR ''^'', backslash, CHR ''/'', CHR '']'']
             then Some (NotSlash, drop 4 cs) else None)
          else if c = CHR ''.'' then Some (AnyChar, cs)
          else if isSyntaxChar c \<and> c \<noteq> CHR ''/'' then None
          else Some (Lit c, cs))"

definition readQuant :: "string \<Rightarrow> Quant \<times> string" where
  "readQuant s =
     (case s of
        [] \<Rightarrow> (Once, [])
      | c # cs \<Rightarrow>
          if c = CHR ''*'' then (Star, cs)
          else if c = CHR ''+'' then (Plus, cs)
          else (Once, s))"

lemma readAtom_shorter: "readAtom s = Some (cl, rest) \<Longrightarrow> length rest < length s"
  by (auto simp: readAtom_def split: list.splits if_splits)

lemma readQuant_not_longer: "length (snd (readQuant s)) \<le> length s"
  by (auto simp: readQuant_def split: list.splits)

function readRegex :: "string \<Rightarrow> Item list option" where
  "readRegex s =
     (if s = [] then Some []
      else (case readAtom s of
              None \<Rightarrow> None
            | Some (cl, rest) \<Rightarrow>
                map_option (Cons (Item cl (fst (readQuant rest)))) (readRegex (snd (readQuant rest)))))"
  by pat_completeness auto
termination
proof (relation "measure length")
  show "wf (measure length)" by simp
next
  fix s :: string and x2 x y
  assume "readAtom s = Some x2" and "(x, y) = x2"
  then have "length y < length s"
    by (metis readAtom_shorter)
  moreover have "length (snd (readQuant y)) \<le> length y"
    by (rule readQuant_not_longer)
  ultimately show "(snd (readQuant y), s) \<in> measure length"
    by simp
qed

declare readRegex.simps [simp del]

section \<open>The glob matcher\<close>

definition globToRegexSource :: "string \<Rightarrow> string" where
  \<comment> \<open>the four \<^verbatim>\<open>replace\<close> calls of \<^verbatim>\<open>matchesPattern\<close>, in the order of the source; each works on
      the text the one before it returned\<close>
  "globToRegexSource pattern =
     replaceAll ''.'' [backslash, CHR ''.'']
       (replaceAll ''?'' [CHR ''['', CHR ''^'', backslash, CHR ''/'', CHR '']'']
         (replaceAll ''*'' [CHR ''['', CHR ''^'', backslash, CHR ''/'', CHR '']'', CHR ''*'']
           (replaceAll ''**'' ''.*'' pattern)))"

definition matchesPattern :: "string \<Rightarrow> string \<Rightarrow> bool option" where
  \<comment> \<open>\<^verbatim>\<open>new RegExp(`^${regexPattern}$`).test(filePath)\<close>\<close>
  "matchesPattern filePath pattern =
     map_option (\<lambda>r. regexTest r filePath) (readRegex (globToRegexSource pattern))"

section \<open>Errors and results\<close>

text \<open>
  A value thrown in JavaScript is an \<^verbatim>\<open>Error\<close> object with a name and a message, or any other
  value. An awaited call either returns or throws.
\<close>

datatype JSError =
    ErrorObject string string    \<comment> \<open>\<^verbatim>\<open>instanceof Error\<close>: its name and its message\<close>
  | ThrownValue string           \<comment> \<open>any other thrown value, by its \<^verbatim>\<open>String(...)\<close> form\<close>

datatype 'a result = Returned 'a | Threw JSError

fun errorString :: "JSError \<Rightarrow> string" where
  \<comment> \<open>the text a template literal gives for the caught value\<close>
  "errorString (ErrorObject n m) = (if n = [] then m else if m = [] then n else n @ '': '' @ m)"
| "errorString (ThrownValue v) = v"

section \<open>The directive parser\<close>

record Directive =
  type :: string      \<comment> \<open>one of download, unzip, validate, implement when the parser made it\<close>
  target :: string
  raw :: string

definition listItemRegex :: "Item list" where
  \<comment> \<open>\<^verbatim>\<open>/^\d+\.\s+\*\*([a-zA-Z]+)\*\*\s+(.+)$/\<close>; the groups are the items at positions 5 and 9\<close>
  "listItemRegex =
     [Item Digit Plus, Item (Lit (CHR ''.'')) Once, Item Space Plus,
      Item (Lit (CHR ''*'')) Once, Item (Lit (CHR ''*'')) Once,
      Item AsciiLetter Plus,
      Item (Lit (CHR ''*'')) Once, Item (Lit (CHR ''*'')) Once,
      Item Space Plus, Item AnyChar Plus]"

definition matchListItem :: "string \<Rightarrow> (string \<times> string) option" where
  \<comment> \<open>\<^verbatim>\<open>line.match(listItemRegex)\<close>, as the pair of its two groups\<close>
  "matchListItem line =
     (case rmatch listItemRegex line of
        Some [num, dot, sp1, o1, o2, ty, c1, c2, sp2, tg] \<Rightarrow> Some (ty, tg)
      | _ \<Rightarrow> None)"

definition parseLine :: "string \<Rightarrow> Directive option" where
  \<comment> \<open>the body of the loop over the lines: the directive the line adds, if any\<close>
  "parseLine line =
     (case matchListItem line of
        None \<Rightarrow> None
      | Some (ty, tg) \<Rightarrow>
          (let directiveType = toLowerCase ty in
           if directiveType \<in> set [''download'', ''unzip'', ''validate'', ''implement'']
           then Some \<lparr>type = directiveType, target = trim tg, raw = trim line\<rparr>
           else None))"

fun parseLoop :: "string list \<Rightarrow> Directive list \<Rightarrow> Directive list" where
  \<comment> \<open>\<^verbatim>\<open>for (const line of lines)\<close>, with the array \<^verbatim>\<open>directives\<close> that it pushes to\<close>
  "parseLoop [] directives = directives"
| "parseLoop (line # lines) directives =
     (case parseLine line of
        Some d \<Rightarrow> parseLoop lines (directives @ [d])
      | None \<Rightarrow> parseLoop lines directives)"

definition parsePlanText :: "string \<Rightarrow> Directive list" where
  "parsePlanText content = parseLoop (splitLines content) []"

definition parseImplementationPlan :: "string result \<Rightarrow> Directive list result" where
  \<comment> \<open>the argument is the outcome of \<^verbatim>\<open>fs.readFile(implementationPlanPath, 'utf-8')\<close>; an error
      of the read is not caught here\<close>
  "parseImplementationPlan readFile =
     (case readFile of
        Threw e \<Rightarrow> Threw e
      | Returned content \<Rightarrow> Returned (parsePlanText content))"

section \<open>The download history\<close>

text \<open>
  \<^verbatim>\<open>JSON.parse\<close> belongs to the runtime, not to the repository: the model takes it as a
  parameter \<open>jsonParse\<close> from the response body to the parsed value, \<open>None\<close> when it throws
  a SyntaxError. A number's value (an IEEE double) is left as a type parameter. The members
  of an object are an association list read with \<^const>\<open>map_of\<close>.
\<close>

datatype 'n JSON =
    JNull
  | JBool bool
  | JNumber 'n
  | JString string
  | JArray "'n JSON list"
  | JObject "(string \<times> 'n JSON) list"

fun getProperty :: "'n JSON \<Rightarrow> string \<Rightarrow> 'n JSON option result" where
  \<comment> \<open>\<^verbatim>\<open>v.name\<close> for a name that no prototype defines (\<^verbatim>\<open>message\<close>, \<^verbatim>\<open>instructions\<close>): reading a
      property of \<^verbatim>\<open>null\<close> throws a TypeError, a missing property is \<^verbatim>\<open>undefined\<close>\<close>
  "getProperty JNull name = Threw (ErrorObject ''TypeError'' ''Cannot read properties of null'')"
| "getProperty (JObject members) name = Returned (map_of members name)"
| "getProperty v name = Returned None"

fun isExpiryMessage :: "'n JSON option \<Rightarrow> bool" where
  \<comment> \<open>\<^verbatim>\<open>message && message.toLowerCase().includes('url expired')\<close>. A message that is
      \<^verbatim>\<open>undefined\<close>, \<^verbatim>\<open>null\<close>, \<^verbatim>\<open>false\<close>, \<^verbatim>\<open>0\<close> or the empty string is falsy. Any other value that
      is not a string has no method \<^verbatim>\<open>toLowerCase\<close>: the TypeError is caught by the inner
      \<^verbatim>\<open>catch\<close>, after which the source goes on exactly as for a falsy message.\<close>
  "isExpiryMessage (Some (JString m)) = (m \<noteq> [] \<and> strIncludes (toLowerCase m) ''url expired'')"
| "isExpiryMessage v = False"

record 'n DownloadResult =
  url :: string
  data :: "string option"                    \<comment> \<open>\<^verbatim>\<open>Buffer | null\<close>: the bytes of the body\<close>
  contentType :: string
  isExpired :: bool
  expiryInstructions :: "'n JSON option"     \<comment> \<open>\<open>None\<close> is \<^verbatim>\<open>undefined\<close>\<close>

record 'n DocWorkflowManager =
  implementationPlanPath :: string
  downloadHistory :: "'n DownloadResult list"

record AxiosError =
  response :: "(nat \<times> string) option"   \<comment> \<open>status and status text, when the server answered\<close>
  request :: bool                          \<comment> \<open>the request was sent\<close>
  code :: "string option"                  \<comment> \<open>\<^verbatim>\<open>ECONNABORTED\<close> for the 30 second timeout\<close>
  message :: string

datatype AxiosOutcome =
    Fulfilled "string option" string   \<comment> \<open>status 200 (\<^verbatim>\<open>validateStatus\<close>): the content-type header
                                            and the body\<close>
  | Rejected AxiosError                \<comment> \<open>\<^verbatim>\<open>axios.isAxiosError(error)\<close>\<close>
  | RejectedOther JSError              \<comment> \<open>any other thrown value\<close>

definition pushResult :: "'n DownloadResult \<Rightarrow> 'n DocWorkflowManager \<Rightarrow> 'n DocWorkflowManager" where
  \<comment> \<open>\<^verbatim>\<open>this.downloadHistory.push(r)\<close>\<close>
  "pushResult r this = this\<lparr>downloadHistory := downloadHistory this @ [r]\<rparr>"

definition processDownload ::
  "(string \<Rightarrow> 'n JSON option) \<Rightarrow> AxiosOutcome \<Rightarrow> string \<Rightarrow> 'n DocWorkflowManager
     \<Rightarrow> bool \<times> 'n DocWorkflowManager" where
  \<comment> \<open>lines 102-180; \<open>outcome\<close> is what \<^verbatim>\<open>await axios.get(url, ...)\<close> does in this call.
      \<open>binary\<close> is the end of the \<^verbatim>\<open>try\<close> block (lines 146-157), which is reached when the
      content type is not JSON, when the \<^verbatim>\<open>if\<close> of line 123 fails, and from the inner
      \<^verbatim>\<open>catch\<close>.\<close>
  "processDownload jsonParse outcome u this =
     (case outcome of
        Rejected e \<Rightarrow> (False, this)
      | RejectedOther e \<Rightarrow> (False, this)
      | Fulfilled header body \<Rightarrow>
          (let ct = (case header of None \<Rightarrow> [] | Some h \<Rightarrow> h);
               binary =
                 (True,
                  pushResult
                    \<lparr>url = u, data = Some body, contentType = ct, isExpired = False,
                     expiryInstructions = None\<rparr>
                    this)
           in if strIncludes ct ''application/json'' then
                (case jsonParse body of
                   None \<Rightarrow> binary
                 | Some jsonResponse \<Rightarrow>
                     (case getProperty jsonResponse ''message'' of
                        Threw e \<Rightarrow> binary
                      | Returned msg \<Rightarrow>
                          if isExpiryMessage msg then
                            (False,
                             pushResult
                               \<lparr>url = u, data = None, contentType = ct, isExpired = True,
                                expiryInstructions =
                                  (case getProperty jsonResponse ''instructions'' of
                                     Returned v \<Rightarrow> v | Threw e \<Rightarrow> None)\<rparr>
                               this)
                          else binary))
              else binary))"

fun processDownloads ::
  "(string \<Rightarrow> 'n JSON option) \<Rightarrow> (string \<times> AxiosOutcome) list \<Rightarrow> 'n DocWorkflowManager
     \<Rightarrow> 'n DocWorkflowManager" where
  \<comment> \<open>a sequence of calls of \<open>processDownload\<close> on one manager, each with its address and
      what the network did\<close>
  "processDownloads jsonParse [] this = this"
| "processDownloads jsonParse ((u, outcome) # calls) this =
     processDownloads jsonParse calls (snd (processDownload jsonParse outcome u this))"

function showNat :: "nat \<Rightarrow> string" where
  \<comment> \<open>a number in a template literal\<close>
  "showNat n =
     (if n < 10 then [char_of (48 + n)] else showNat (n div 10) @ [char_of (48 + n mod 10)])"
  by pat_completeness auto
termination
  by (relation "measure id") auto

declare showNat.simps [simp del]

definition downloadFailureLog :: "AxiosOutcome \<Rightarrow> string list" where
  \<comment> \<open>the lines that the outer \<^verbatim>\<open>catch\<close> of \<open>processDownload\<close> writes with \<^verbatim>\<open>console.error\<close>
      (lines 159-176): the kinds of failure differ in what is logged, and in nothing else\<close>
  "downloadFailureLog outcome =
     (case outcome of
        Fulfilled header body \<Rightarrow> []
      | Rejected e \<Rightarrow>
          [case response e of
             Some (status, statusText) \<Rightarrow>
               ''Download failed with status '' @ showNat status @ '': '' @ statusText
           | None \<Rightarrow>
               if request e then ''Download failed: No response received from server''
               else ''Download failed: '' @ message e]
          @ (if code e = Some ''ECONNABORTED'' then [''Download timed out after 30 seconds'']
             else [])
      | RejectedOther e \<Rightarrow> [''Download failed: '' @ errorString e])"

definition getDownloadHistory :: "'n DocWorkflowManager \<Rightarrow> 'n DownloadResult list" where
  "getDownloadHistory this = downloadHistory this"

definition clearDownloadHistory :: "'n DocWorkflowManager \<Rightarrow> 'n DocWorkflowManager" where
  "clearDownloadHistory this = this\<lparr>downloadHistory := []\<rparr>"

section \<open>Extraction\<close>

text \<open>
  The file system and the archive library are outside the repository. \<open>processUnzip\<close>
  takes what each of their calls does as a parameter and returns, besides its result, the
  lines it writes with \<^verbatim>\<open>console.error\<close> and the file system calls it makes, in order.
  The entry events of the archive (lines 215-270 of the source) are one such parameter: the
  promise built there is returned without \<^verbatim>\<open>await\<close>, so an error thrown in it is not caught
  by \<open>processUnzip\<close>.
\<close>

datatype FsOp =
    Mkdir string
  | WriteFile string string
  | OpenZip string
  | ExtractEntries string string

record UnzipIO =
  pathJoin :: "string \<Rightarrow> string \<Rightarrow> string"
  mkdir :: "string \<Rightarrow> JSError option"                   \<comment> \<open>\<open>None\<close>: the call returns\<close>
  writeFile :: "string \<Rightarrow> string \<Rightarrow> JSError option"
  openZip :: "string \<Rightarrow> JSError option"
  extractEntries :: "string \<Rightarrow> string \<Rightarrow> bool result \<times> string list"
    \<comment> \<open>the archive at the first path unpacked below the second: what the promise settles
        to, and the lines written with \<^verbatim>\<open>console.error\<close>\<close>

record UnzipRun =
  promise :: "bool result"                 \<comment> \<open>what the promise of \<open>processUnzip\<close> settles to\<close>
  consoleErrors :: "string list"
  fsOps :: "FsOp list"

definition unzipFailed :: "JSError \<Rightarrow> FsOp list \<Rightarrow> UnzipRun" where
  \<comment> \<open>the outer \<^verbatim>\<open>catch\<close> of \<open>processUnzip\<close>\<close>
  "unzipFailed e ops =
     \<lparr>promise = Returned False, consoleErrors = [''Unzip failed: '' @ errorString e], fsOps = ops\<rparr>"

definition processUnzip :: "UnzipIO \<Rightarrow> string \<Rightarrow> 'n DocWorkflowManager \<Rightarrow> UnzipRun" where
  "processUnzip io targetPath this =
     (let destination = (if targetPath = [] then ''documentation'' else targetPath);
          history = getDownloadHistory this
      in if length history = 0 then
           \<lparr>promise = Returned False, consoleErrors = [''No downloads available to unzip''],
            fsOps = []\<rparr>
         else
           (let latestDownload = history ! (length history - 1) in
            case data latestDownload of
              None \<Rightarrow>
                \<lparr>promise = Returned False,
                 consoleErrors = [''No data available in latest download''], fsOps = []\<rparr>
            | Some bytes \<Rightarrow>
                if \<not> strIncludes (contentType latestDownload) ''zip''
                   \<and> \<not> strIncludes (contentType latestDownload) ''octet-stream''
                then
                  \<lparr>promise = Returned False,
                   consoleErrors =
                     [''Content type '' @ contentType latestDownload @ '' is not a zip file''],
                   fsOps = []\<rparr>
                else
                  (case mkdir io destination of
                     Some e \<Rightarrow> unzipFailed e [Mkdir destination]
                   | None \<Rightarrow>
                       (let tempZipPath = pathJoin io destination ''temp_download.zip'' in
                        case writeFile io tempZipPath bytes of
                          Some e \<Rightarrow>
                            unzipFailed e [Mkdir destination, WriteFile tempZipPath bytes]
                        | None \<Rightarrow>
                            (case openZip io tempZipPath of
                               Some e \<Rightarrow>
                                 unzipFailed e
                                   [Mkdir destination, WriteFile tempZipPath bytes,
                                    OpenZip tempZipPath]
                             | None \<Rightarrow>
                                 (case extractEntries io tempZipPath destination of
                                    (settled, lines) \<Rightarrow>
                                      \<lparr>promise = settled, consoleErrors = lines,
                                       fsOps =
                                         [Mkdir destination, WriteFile tempZipPath bytes,
                                          OpenZip tempZipPath,
                                          ExtractEntries tempZipPath destination]\<rparr>))))))"

section \<open>Validation\<close>

text \<open>
  A directory is read as the tree of its entries; an entry that is not a directory counts
  as a file, as in the source. Paths are joined with \<^verbatim>\<open>/\<close> (POSIX), and the path of an entry
  relative to the root of the search is the names on the way to it.
\<close>

datatype FsEntry = FileEntry string | DirEntry string "FsEntry list"

record ValidateIO =
  access :: "string \<Rightarrow> bool"                        \<comment> \<open>\<^verbatim>\<open>fs.access(path)\<close> returns\<close>
  readdirs :: "string \<Rightarrow> FsEntry list result"
    \<comment> \<open>the entries below a directory as the calls of \<^verbatim>\<open>fs.readdir\<close> list them, or the
        error of the first call that throws\<close>

definition relativeTo :: "string \<Rightarrow> string \<Rightarrow> string" where
  "relativeTo dir name = (if dir = [] then name else dir @ ''/'' @ name)"

fun traverse :: "string \<Rightarrow> FsEntry \<Rightarrow> string list" where
  \<comment> \<open>the relative paths of the files at and below an entry of the directory \<open>dir\<close>
      (relative to the root), in the order of the traversal\<close>
  "traverse dir (FileEntry name) = [relativeTo dir name]"
| "traverse dir (DirEntry name entries) = concat (map (traverse (relativeTo dir name)) entries)"

definition glob :: "string \<Rightarrow> FsEntry list \<Rightarrow> string list option" where
  \<comment> \<open>\<open>None\<close> where \<open>matchesPattern\<close> is not modelled for the pattern\<close>
  "glob pattern entries =
     (let paths = concat (map (traverse []) entries) in
      if list_ex (\<lambda>p. matchesPattern p pattern = None) paths then None
      else Some (filter (\<lambda>p. matchesPattern p pattern = Some True) paths))"

definition validateAt :: "ValidateIO \<Rightarrow> string \<Rightarrow> string \<Rightarrow> bool option" where
  \<comment> \<open>the body of \<open>processValidate\<close> for a root directory \<open>documentationPath\<close>\<close>
  "validateAt io documentationPath pattern =
     (if \<not> access io documentationPath then Some False
      else (case readdirs io documentationPath of
              Threw e \<Rightarrow> Some False
            | Returned entries \<Rightarrow>
                (case glob pattern entries of
                   None \<Rightarrow> None
                 | Some files \<Rightarrow> Some (length files \<noteq> 0))))"

definition processValidate :: "ValidateIO \<Rightarrow> string \<Rightarrow> bool option" where
  \<comment> \<open>\<^verbatim>\<open>const documentationPath = 'documentation'\<close>\<close>
  "processValidate io pattern = validateAt io ''documentation'' pattern"

subsection \<open>The tool dispatcher\<close>

text \<open>
  The cases \<^verbatim>\<open>extract_archive\<close> and \<^verbatim>\<open>validate_patterns\<close> of the handler of tool calls, with
  the arguments the tool's schema declares; an argument that the caller left out is \<open>None\<close>.
  The result is the text of the answer.
\<close>

definition extractArchiveTool ::
  "UnzipIO \<Rightarrow> string option \<Rightarrow> 'n DocWorkflowManager \<Rightarrow> UnzipRun" where
  \<comment> \<open>\<^verbatim>\<open>processUnzip(args.targetPath || 'documentation')\<close>\<close>
  "extractArchiveTool io targetPath this =
     processUnzip io
       (case targetPath of None \<Rightarrow> ''documentation''
        | Some t \<Rightarrow> if t = [] then ''documentation'' else t)
       this"

definition validatePatternsTool :: "ValidateIO \<Rightarrow> string \<Rightarrow> string option \<Rightarrow> string option" where
  \<comment> \<open>\<^verbatim>\<open>processValidate(args.pattern)\<close>: the argument \<^verbatim>\<open>basePath\<close> is not read\<close>
  "validatePatternsTool io pattern basePath =
     map_option
       (\<lambda>validateSuccess.
          if validateSuccess then ''Pattern validation successful for: '' @ pattern
          else ''Pattern validation failed for: '' @ pattern)
       (processValidate io pattern)"

section \<open>The workflow\<close>

text \<open>
  The four handlers reach the network, the file system and child processes. For the
  workflow they are parameters, as the tests of the repository replace them: a handler
  takes the directive's target and the state of the world \<open>'w\<close> (the manager and all it can
  reach) and returns the state it leaves, with the boolean it reports or the error it
  throws. The run records, in order, each directive it dispatches with what the handler
  reported, and the call of the fallback flow.
\<close>

record 'w Handlers =
  download :: "string \<Rightarrow> 'w \<Rightarrow> bool result \<times> 'w"
  unzip :: "string \<Rightarrow> 'w \<Rightarrow> bool result \<times> 'w"
  validate :: "string \<Rightarrow> 'w \<Rightarrow> bool result \<times> 'w"
  implement :: "string \<Rightarrow> 'w \<Rightarrow> bool result \<times> 'w"

definition processDirective :: "'w Handlers \<Rightarrow> Directive \<Rightarrow> 'w \<Rightarrow> bool result \<times> 'w" where
  "processDirective hs directive w =
     (if type directive = ''download'' then download hs (target directive) w
      else if type directive = ''unzip'' then unzip hs (target directive) w
      else if type directive = ''validate'' then validate hs (target directive) w
      else if type directive = ''implement'' then implement hs (target directive) w
      else (Returned False, w))"

datatype Event =
    Dispatched Directive "bool result"   \<comment> \<open>\<open>processDirective\<close> was called, and what it gave\<close>
  | FallbackRun                         \<comment> \<open>\<open>runFallbackFlow\<close> was called\<close>

record 'w WorkflowRun =
  succeeded :: bool          \<comment> \<open>the boolean \<open>processWorkflow\<close> returns\<close>
  events :: "Event list"
  world :: 'w

definition runFallbackFlow :: bool where
  "runFallbackFlow = True"

fun isMissingFile :: "JSError \<Rightarrow> bool" where
  \<comment> \<open>\<^verbatim>\<open>error instanceof Error && error.message.includes('ENOENT')\<close>\<close>
  "isMissingFile (ErrorObject n m) = strIncludes m ''ENOENT''"
| "isMissingFile (ThrownValue v) = False"

fun runDirectives ::
  "(Directive \<Rightarrow> 'w \<Rightarrow> bool result \<times> 'w) \<Rightarrow> Directive list \<Rightarrow> 'w
     \<Rightarrow> bool result \<times> Event list \<times> 'w" where
  \<comment> \<open>the loop over the directives: \<open>Returned True\<close> when it runs to its end, \<open>Returned False\<close>
      at the \<^verbatim>\<open>return false\<close> in it, \<open>Threw\<close> when a handler throws\<close>
  "runDirectives pd [] w = (Returned True, [], w)"
| "runDirectives pd (d # ds) w =
     (case pd d w of
        (Returned True, w') \<Rightarrow>
          (case runDirectives pd ds w' of
             (r, evs, w'') \<Rightarrow> (r, Dispatched d (Returned True) # evs, w''))
      | (Returned False, w') \<Rightarrow> (Returned False, [Dispatched d (Returned False)], w')
      | (Threw e, w') \<Rightarrow> (Threw e, [Dispatched d (Threw e)], w'))"

definition caught :: "JSError \<Rightarrow> Event list \<Rightarrow> 'w \<Rightarrow> 'w WorkflowRun" where
  \<comment> \<open>the \<^verbatim>\<open>catch\<close> of \<open>processWorkflow\<close>, after the events \<open>evs\<close>\<close>
  "caught e evs w =
     (if isMissingFile e
      then \<lparr>succeeded = runFallbackFlow, events = evs @ [FallbackRun], world = w\<rparr>
      else \<lparr>succeeded = False, events = evs, world = w\<rparr>)"

definition processWorkflow :: "'w Handlers \<Rightarrow> string result \<Rightarrow> 'w \<Rightarrow> 'w WorkflowRun" where
  \<comment> \<open>\<open>readFile\<close> is the outcome of reading the plan\<close>
  "processWorkflow hs readFile w =
     (case parseImplementationPlan readFile of
        Threw e \<Rightarrow> caught e [] w
      | Returned directives \<Rightarrow>
          if length directives = 0
          then \<lparr>succeeded = runFallbackFlow, events = [FallbackRun], world = w\<rparr>
          else (case runDirectives (processDirective hs) directives w of
                  (Returned b, evs, w') \<Rightarrow> \<lparr>succeeded = b, events = evs, world = w'\<rparr>
                | (Threw e, evs, w') \<Rightarrow> caught e evs w'))"

fun directiveOf :: "Event \<Rightarrow> Directive option" where
  "directiveOf (Dispatched d r) = Some d"
| "directiveOf FallbackRun = None"

subsection \<open>The handlers of the manager\<close>

text \<open>
  The handlers as the manager has them, over the manager as the state of the world. What
  lies outside the repository is a parameter: the parser of JSON, what the network does for
  an address, the file system, and the run of a script (\<open>processImplement\<close>, whose steps
  are not modelled). For a pattern on which \<open>processValidate\<close> is not modelled, the boolean
  is a parameter as well.
\<close>

record 'n Services =
  jsonParser :: "string \<Rightarrow> 'n JSON option"
  axiosGet :: "string \<Rightarrow> AxiosOutcome"
  unzipIO :: UnzipIO
  validateIO :: ValidateIO
  validateElsewhere :: "string \<Rightarrow> bool"
  runScript :: "string \<Rightarrow> bool result"

definition managerHandlers :: "'n Services \<Rightarrow> 'n DocWorkflowManager Handlers" where
  "managerHandlers sv =
     \<lparr>download =
        (\<lambda>u this. case processDownload (jsonParser sv) (axiosGet sv u) u this of
                     (b, this') \<Rightarrow> (Returned b, this')),
      unzip = (\<lambda>t this. (promise (processUnzip (unzipIO sv) t this), this)),
      validate =
        (\<lambda>p this. case processValidate (validateIO sv) p of
                     Some b \<Rightarrow> (Returned b, this)
                   | None \<Rightarrow> (Returned (validateElsewhere sv p), this)),
      implement = (\<lambda>n this. (runScript sv n, this))\<rparr>"

section \<open>The history as an array on the heap\<close>

text \<open>
  \<open>getDownloadHistory\<close> returns \<^verbatim>\<open>[...this.downloadHistory]\<close>: a new array with the same
  elements. Whether a caller can change the history through it is a question of aliasing,
  so here arrays and records are objects on a heap: an array holds references to records,
  and the manager holds a reference to its array.
\<close>

type_synonym ref = nat

record 'n Heap =
  arrays :: "ref \<Rightarrow> ref list option"
  records :: "ref \<Rightarrow> 'n DownloadResult option"
  nextRef :: ref                                   \<comment> \<open>every reference in use is below it\<close>

record ManagerRef =
  historyRef :: ref                                \<comment> \<open>\<^verbatim>\<open>this.downloadHistory\<close>\<close>

definition newArray :: "ref list \<Rightarrow> 'n Heap \<Rightarrow> ref \<times> 'n Heap" where
  "newArray elems h =
     (nextRef h, h\<lparr>arrays := (arrays h)(nextRef h \<mapsto> elems), nextRef := Suc (nextRef h)\<rparr>)"

definition newRecord :: "'n DownloadResult \<Rightarrow> 'n Heap \<Rightarrow> ref \<times> 'n Heap" where
  "newRecord r h =
     (nextRef h, h\<lparr>records := (records h)(nextRef h \<mapsto> r), nextRef := Suc (nextRef h)\<rparr>)"

definition elementsOf :: "'n Heap \<Rightarrow> ref \<Rightarrow> ref list" where
  "elementsOf h a = (case arrays h a of Some elems \<Rightarrow> elems | None \<Rightarrow> [])"

definition contentsOf :: "'n Heap \<Rightarrow> ref \<Rightarrow> 'n DownloadResult option list" where
  \<comment> \<open>the records an array holds, in its order\<close>
  "contentsOf h a = map (records h) (elementsOf h a)"

definition getDownloadHistoryRef :: "ManagerRef \<Rightarrow> 'n Heap \<Rightarrow> ref \<times> 'n Heap" where
  \<comment> \<open>\<^verbatim>\<open>return [...this.downloadHistory]\<close>\<close>
  "getDownloadHistoryRef this h = newArray (elementsOf h (historyRef this)) h"

definition clearDownloadHistoryRef :: "ManagerRef \<Rightarrow> 'n Heap \<Rightarrow> ManagerRef \<times> 'n Heap" where
  \<comment> \<open>\<^verbatim>\<open>this.downloadHistory = []\<close>\<close>
  "clearDownloadHistoryRef this h =
     (case newArray [] h of (a, h') \<Rightarrow> (this\<lparr>historyRef := a\<rparr>, h'))"

definition pushResultRef :: "'n DownloadResult \<Rightarrow> ManagerRef \<Rightarrow> 'n Heap \<Rightarrow> 'n Heap" where
  \<comment> \<open>\<^verbatim>\<open>this.downloadHistory.push({...})\<close> of \<open>processDownload\<close>\<close>
  "pushResultRef r this h =
     (case newRecord r h of
        (o', h') \<Rightarrow>
          h'\<lparr>arrays := (arrays h')(historyRef this \<mapsto> elementsOf h' (historyRef this) @ [o'])\<rparr>)"

definition arrayAssign :: "ref \<Rightarrow> ref list \<Rightarrow> 'n Heap \<Rightarrow> 'n Heap" where
  \<comment> \<open>any change a caller makes to the array \<open>a\<close> itself (\<^verbatim>\<open>push\<close>, \<^verbatim>\<open>pop\<close>, \<^verbatim>\<open>splice\<close>, an
      assignment to an index or to \<^verbatim>\<open>length\<close>): afterwards it holds \<open>elems\<close>\<close>
  "arrayAssign a elems h = h\<lparr>arrays := (arrays h)(a \<mapsto> elems)\<rparr>"

definition historyOf :: "ManagerRef \<Rightarrow> 'n Heap \<Rightarrow> 'n DownloadResult option list" where
  \<comment> \<open>the manager's history, read from the heap\<close>
  "historyOf this h = contentsOf h (historyRef this)"

section \<open>Notions used in the statements\<close>

fun isFulfilled :: "AxiosOutcome \<Rightarrow> bool" where
  \<comment> \<open>the request was answered with status 200\<close>
  "isFulfilled (Fulfilled header body) = True"
| "isFulfilled other = False"

definition genericNetworkOrTimeoutFailure :: "AxiosOutcome \<Rightarrow> bool" where
  \<comment> \<open>the failure taxonomy of the specification: an attempt that failed, and not by a
      response with a status other than 200\<close>
  "genericNetworkOrTimeoutFailure outcome =
     (case outcome of
        Fulfilled header body \<Rightarrow> False
      | Rejected e \<Rightarrow> response e = None
      | RejectedOther e \<Rightarrow> True)"

fun fits :: "Quant \<Rightarrow> nat \<Rightarrow> bool" where
  "fits Once n = (n = 1)"
| "fits Star n = True"
| "fits Plus n = (1 \<le> n)"

fun itemMatches :: "Item \<Rightarrow> string \<Rightarrow> bool" where
  \<comment> \<open>the text is a run of characters of the item's class, of a length its quantifier allows\<close>
  "itemMatches (Item cl q) m = (list_all (inClass cl) m \<and> fits q (length m))"





definition dispatched :: "Event list \<Rightarrow> Directive list" where
  \<comment> \<open>the directives handed to \<open>processDirective\<close>, in the order of the calls\<close>
  "dispatched evs = List.map_filter directiveOf evs"

fun reportedTrue :: "Event \<Rightarrow> bool" where
  \<comment> \<open>the event of a directive whose handler reported \<^verbatim>\<open>true\<close>\<close>
  "reportedTrue (Dispatched d (Returned b)) = b"
| "reportedTrue _ = False"

definition heapOk :: "ManagerRef \<Rightarrow> 'n Heap \<Rightarrow> bool" where
  \<comment> \<open>the manager's array is on the heap, and the references the manager holds are in use:
      they lie below the next free one\<close>
  "heapOk this h =
     (historyRef this < nextRef h
      \<and> arrays h (historyRef this) \<noteq> None
      \<and> list_all (\<lambda>e. e < nextRef h) (elementsOf h (historyRef this)))"

definition newManager :: "'n Heap \<Rightarrow> ManagerRef \<times> 'n Heap" where
  \<comment> \<open>the field initialiser \<^verbatim>\<open>downloadHistory: DownloadResult[] = []\<close>\<close>
  "newManager h = (case newArray [] h of (a, h') \<Rightarrow> (\<lparr>historyRef = a\<rparr>, h'))"

subsection \<open>Sessions of calls\<close>

text \<open>
  A session is a manager together with the arrays that \<open>getDownloadHistory\<close> has handed to
  its callers. The calls of a session are those that reach the field \<^verbatim>\<open>downloadHistory\<close>
  (it is \<^verbatim>\<open>private\<close>: \<open>getDownloadHistory\<close>, the \<^verbatim>\<open>push\<close> of \<open>processDownload\<close> and
  \<open>clearDownloadHistory\<close>), and the writes of a caller to an array it was handed.
\<close>

record 'n Session =
  sessMgr :: ManagerRef
  sessHeap :: "'n Heap"
  sessCopies :: "ref list"          \<comment> \<open>the arrays handed out, the latest last\<close>

datatype 'n Call =
    CallGet                         \<comment> \<open>\<^verbatim>\<open>getDownloadHistory()\<close>\<close>
  | CallPush "'n DownloadResult"    \<comment> \<open>a \<open>processDownload\<close> that appends this record\<close>
  | CallClear                       \<comment> \<open>\<^verbatim>\<open>clearDownloadHistory()\<close>\<close>
  | CallerWrite nat "ref list"      \<comment> \<open>a caller changes the array it was handed by the i-th
                                        \<open>getDownloadHistory\<close>: it then holds these elements\<close>

fun step :: "'n Call \<Rightarrow> 'n Session \<Rightarrow> 'n Session" where
  "step CallGet s =
     (case getDownloadHistoryRef (sessMgr s) (sessHeap s) of
        (a, h') \<Rightarrow> s\<lparr>sessHeap := h', sessCopies := sessCopies s @ [a]\<rparr>)"
| "step (CallPush r) s = s\<lparr>sessHeap := pushResultRef r (sessMgr s) (sessHeap s)\<rparr>"
| "step CallClear s =
     (case clearDownloadHistoryRef (sessMgr s) (sessHeap s) of
        (this', h') \<Rightarrow> s\<lparr>sessMgr := this', sessHeap := h'\<rparr>)"
| "step (CallerWrite i elems) s =
     (if i < length (sessCopies s)
      then s\<lparr>sessHeap := arrayAssign (sessCopies s ! i) elems (sessHeap s)\<rparr>
      else s)"

definition runCalls :: "'n Call list \<Rightarrow> 'n Session \<Rightarrow> 'n Session" where
  "runCalls cs s = foldl (\<lambda>s c. step c s) s cs"

definition startSession :: "'n Heap \<Rightarrow> 'n Session" where
  \<comment> \<open>a new manager on the heap \<open>h0\<close>; no array has been handed out\<close>
  "startSession h0 =
     (case newManager h0 of (this, h) \<Rightarrow> \<lparr>sessMgr = this, sessHeap = h, sessCopies = []\<rparr>)"

definition session :: "'n Heap \<Rightarrow> 'n Call list \<Rightarrow> 'n Session" where
  \<comment> \<open>the state of a manager that was made on \<open>h0\<close> and has seen the calls \<open>cs\<close>\<close>
  "session h0 cs = runCalls cs (startSession h0)"

fun ledgerStep :: "'n Call \<Rightarrow> 'n DocWorkflowManager \<Rightarrow> 'n DocWorkflowManager" where
  \<comment> \<open>what a call may do to the history: an append, a clear, or nothing\<close>
  "ledgerStep (CallPush r) m = pushResult r m"
| "ledgerStep CallClear m = clearDownloadHistory m"
| "ledgerStep CallGet m = m"
| "ledgerStep (CallerWrite i elems) m = m"

definition ledgerAfter :: "'n Call list \<Rightarrow> 'n DocWorkflowManager \<Rightarrow> 'n DocWorkflowManager" where
  "ledgerAfter cs m = foldl (\<lambda>m c. ledgerStep c m) m cs"

fun isCallerWrite :: "'n Call \<Rightarrow> bool" where
  "isCallerWrite (CallerWrite i elems) = True"
| "isCallerWrite _ = False"

definition historyNow :: "'n Session \<Rightarrow> 'n DownloadResult option list" where
  \<comment> \<open>the records of the manager's history, in its order\<close>
  "historyNow s = historyOf (sessMgr s) (sessHeap s)"

definition latestCopy :: "'n Session \<Rightarrow> ref" where
  \<comment> \<open>the array that the latest \<open>getDownloadHistory\<close> returned\<close>
  "latestCopy s = last (sessCopies s)"

subsection \<open>Sample inputs\<close>

definition freshManager :: "unit DocWorkflowManager" where
  "freshManager =
     \<lparr>implementationPlanPath = ''/test/project/docs/implementation_plan.md'',
      downloadHistory = []\<rparr>"

definition notFound :: AxiosOutcome where
  \<comment> \<open>the rejection for a response with status 404\<close>
  "notFound =
     Rejected \<lparr>response = Some (404, ''Not Found''), request = True,
       code = Some ''ERR_BAD_REQUEST'', message = ''Request failed with status code 404''\<rparr>"

definition timedOut :: AxiosOutcome where
  "timedOut =
     Rejected \<lparr>response = None, request = True,
       code = Some ''ECONNABORTED'', message = ''timeout of 30000ms exceeded''\<rparr>"

definition expiryBody :: string where
  \<open>expiryBody = ''{"message":"URL expired","instructions":"contact support"}''\<close>

definition sampleParse :: "string \<Rightarrow> unit JSON option" where
  \<comment> \<open>\<^verbatim>\<open>JSON.parse\<close> on the two bodies of the samples\<close>
  "sampleParse body =
     (if body = expiryBody
      then Some (JObject [(''message'', JString ''URL expired''),
                          (''instructions'', JString ''contact support'')])
      else None)"

definition sampleCalls :: "(string \<times> AxiosOutcome) list" where
  "sampleCalls =
     [(''https://example.com/file.zip'', Fulfilled (Some ''application/zip'') ''PK-bytes''),
      (''https://example.com/notfound.zip'', notFound),
      (''https://example.com/slow.zip'', timedOut),
      (''https://example.com/expired.zip'', Fulfilled (Some ''application/json'') expiryBody)]"

definition samplePlan :: string where
  "samplePlan =
     ''# Implementation plan\<newline>\<newline>1. **download** https://example.com/file.zip\<newline>2. **validate** **/*.md\<newline>3. **unzip** documentation\<newline>''"

definition outOnly :: ValidateIO where
  \<comment> \<open>a file system with the directory \<^verbatim>\<open>out\<close>, holding \<^verbatim>\<open>a.md\<close> and \<^verbatim>\<open>sub/b.md\<close>, and without a
      directory \<^verbatim>\<open>documentation\<close>\<close>
  "outOnly =
     \<lparr>access = (\<lambda>p. p = ''out''),
      readdirs = (\<lambda>p. if p = ''out''
                       then Returned [FileEntry ''a.md'', DirEntry ''sub'' [FileEntry ''b.md'']]
                       else Threw (ErrorObject ''Error'' ''ENOENT: no such file or directory''))\<rparr>"

definition noDisk :: UnzipIO where
  \<comment> \<open>every call to the file system throws\<close>
  "noDisk =
     \<lparr>pathJoin = (\<lambda>a b. a @ ''/'' @ b),
      mkdir = (\<lambda>p. Some (ErrorObject ''Error'' ''EROFS: read-only file system'')),
      writeFile = (\<lambda>p b. Some (ErrorObject ''Error'' ''EROFS: read-only file system'')),
      openZip = (\<lambda>p. Some (ErrorObject ''Error'' ''ENOENT: no such file or directory'')),
      extractEntries = (\<lambda>p d. (Returned False, []))\<rparr>"

definition emptyHeap :: "unit Heap" where
  \<comment> \<open>a heap on which nothing has been made\<close>
  "emptyHeap = \<lparr>arrays = Map.empty, records = Map.empty, nextRef = 0\<rparr>"

definition zipRecord :: "unit DownloadResult" where
  "zipRecord = \<lparr>url = ''https://example.com/a.zip'', data = Some ''PK-bytes'',
                 contentType = ''application/zip'', isExpired = False,
                 expiryInstructions = None\<rparr>"

definition textRecord :: "unit DownloadResult" where
  "textRecord = \<lparr>url = ''https://example.com/b.txt'', data = Some ''hello'',
                  contentType = ''text/plain'', isExpired = False,
                  expiryInstructions = None\<rparr>"

definition sessionCalls :: "unit Call list" where
  \<comment> \<open>a download, a look at the history, a clear, a write to the array handed out, and a
      second download\<close>
  "sessionCalls = [CallPush zipRecord, CallGet, CallClear, CallerWrite 0 [], CallPush textRecord]"

definition callerWrites :: "unit Call list" where
  \<comment> \<open>a caller empties the second array handed out and fills the first\<close>
  "callerWrites = [CallerWrite 1 [], CallerWrite 0 [4, 4]]"

definition repeatingPlan :: string where
  \<comment> \<open>a plan that repeats a directive\<close>
  "repeatingPlan = ''2. **unzip** out\<newline>note\<newline>1. **download** u\<newline>2. **unzip** out''"



definition unzipOut :: Directive where
  "unzipOut = \<lparr>type = ''unzip'', target = ''out'', raw = ''2. **unzip** out''\<rparr>"


definition paddedLine :: string where
  \<comment> \<open>a directive line that ends in two spaces\<close>
  "paddedLine = ''3. **Validate**  **/*.md  ''"

definition validateMd :: Directive where
  "validateMd = \<lparr>type = ''validate'', target = ''**/*.md'', raw = ''3. **Validate**  **/*.md''\<rparr>"

definition expiredManager :: "unit DocWorkflowManager" where
  \<comment> \<open>a manager after the download of an expired address\<close>
  "expiredManager =
     snd (processDownload sampleParse (Fulfilled (Some ''application/json'') expiryBody)
            ''https://example.com/expired.zip'' freshManager)"

definition textManager :: "unit DocWorkflowManager" where
  \<comment> \<open>a manager after the download of a text file\<close>
  "textManager =
     snd (processDownload sampleParse (Fulfilled (Some ''text/plain'') ''text content'')
            ''https://example.com/file.txt'' freshManager)"

definition missingPlan :: JSError where
  \<comment> \<open>the error of \<^verbatim>\<open>fs.readFile\<close> for a file that does not exist\<close>
  "missingPlan =
     ErrorObject ''Error''
       ''ENOENT: no such file or directory, open /test/project/docs/implementation_plan.md''"

definition permissionDenied :: JSError where
  \<comment> \<open>the error of \<^verbatim>\<open>fs.readFile\<close> for a file that the process may not read\<close>
  "permissionDenied =
     ErrorObject ''Error''
       ''EACCES: permission denied, open /test/project/docs/implementation_plan.md''"

definition throwingHandlers :: "unit Handlers" where
  \<comment> \<open>handlers whose extraction throws an error that names a missing file\<close>
  "throwingHandlers =
     \<lparr>download = (\<lambda>t w. (Returned True, w)), unzip = (\<lambda>t w. (Threw missingPlan, w)),
      validate = (\<lambda>t w. (Returned True, w)), implement = (\<lambda>t w. (Returned True, w))\<rparr>"

definition sampleServices :: "unit Services" where
  \<comment> \<open>every address answers with an archive; there is no directory \<^verbatim>\<open>documentation\<close>, and the
      file system cannot be written\<close>
  "sampleServices =
     \<lparr>jsonParser = sampleParse,
      axiosGet = (\<lambda>u. Fulfilled (Some ''application/zip'') ''PK-bytes''),
      unzipIO = noDisk,
      validateIO = outOnly,
      validateElsewhere = (\<lambda>p. False),
      runScript = (\<lambda>n. Returned True)\<rparr>"

definition expiredServices :: "unit Services" where
  \<comment> \<open>every address answers that it has expired\<close>
  "expiredServices = sampleServices\<lparr>axiosGet := (\<lambda>u. Fulfilled (Some ''application/json'') expiryBody)\<rparr>"

definition expiredPlan :: string where
  "expiredPlan = ''# Implementation plan\<newline>\<newline>1. **download** https://example.com/expired.zip\<newline>2. **unzip** out\<newline>''"

definition worldAfter ::
  "(Directive \<Rightarrow> 'w \<Rightarrow> bool result \<times> 'w) \<Rightarrow> Directive list \<Rightarrow> 'w \<Rightarrow> 'w" where
  \<comment> \<open>the state of the world after the calls for the directives, one after the other, each
      starting where the one before it ended\<close>
  "worldAfter pd ds w = foldl (\<lambda>v d. snd (pd d v)) w ds"

definition stoppedPlan :: string where
  \<comment> \<open>a plan with a download after a validation\<close>
  "stoppedPlan =
     ''1. **download** https://example.com/a.zip\<newline>2. **validate** *.md\<newline>3. **download** https://example.com/b.zip''"

definition twoStepPlan :: string where
  \<comment> \<open>a plan of two directives that both succeed with the sample services\<close>
  "twoStepPlan = ''1. **download** https://example.com/a.zip\<newline>2. **implement** setup''"

definition fetchDirective :: Directive where
  \<comment> \<open>a directive of a kind that the parser never makes\<close>
  "fetchDirective = \<lparr>type = ''fetch'', target = ''u'', raw = ''9. **fetch** u''\<rparr>"

definition afterFirstDownload :: "unit DocWorkflowManager" where
  "afterFirstDownload =
     snd (processDownload sampleParse (Fulfilled (Some ''application/zip'') ''PK-bytes'')
            ''https://example.com/a.zip'' freshManager)"

definition isDirectory :: JSError where
  \<comment> \<open>the error of \<^verbatim>\<open>fs.readFile\<close> for a path that is a directory\<close>
  "isDirectory =
     ErrorObject ''Error'' ''EISDIR: illegal operation on a directory, read''"

definition mediaType :: "string \<Rightarrow> string" where
  \<comment> \<open>the media type that a content type declares: the text before the parameters, which is
      compared without regard to case\<close>
  "mediaType ct = toLowerCase (trim (takeWhile (\<lambda>c. c \<noteq> CHR '';'') ct))"

definition isJsonMediaType :: "string \<Rightarrow> bool" where
  \<comment> \<open>a JSON media type, in the words of the specification\<close>
  "isJsonMediaType ct = (mediaType ct = ''application/json'')"

definition zipcodesManager :: "unit DocWorkflowManager" where
  \<comment> \<open>a manager after the download of a text file whose name holds \<^verbatim>\<open>zip\<close>\<close>
  "zipcodesManager =
     snd (processDownload sampleParse
            (Fulfilled (Some ''text/plain; name=zipcodes.txt'') ''10001,New York'')
            ''https://example.com/zipcodes.txt'' freshManager)"

definition plainDisk :: UnzipIO where
  \<comment> \<open>a file system that can be written; the file written is not an archive\<close>
  "plainDisk =
     \<lparr>pathJoin = (\<lambda>a b. a @ ''/'' @ b),
      mkdir = (\<lambda>p. None),
      writeFile = (\<lambda>p b. None),
      openZip = (\<lambda>p. Some (ErrorObject ''Error''
                   ''end of central directory record signature not found'')),
      extractEntries = (\<lambda>p d. (Returned False, []))\<rparr>"

section \<open>The glob matcher on the table of the specification\<close>

lemma double_star_regex_source:
  "globToRegexSource ''**/*.md'' =
     [backslash] @ ''.[^'' @ [backslash] @ ''/]*/[^'' @ [backslash] @ ''/]*'' @ [backslash] @ ''.md''"
  by (simp add: globToRegexSource_def backslash_def)

lemma double_star_regex:
  "readRegex (globToRegexSource ''**/*.md'') =
     Some [Item (Lit (CHR ''.'')) Once, Item NotSlash Star, Item (Lit (CHR ''/'')) Once,
           Item NotSlash Star, Item (Lit (CHR ''.'')) Once, Item (Lit (CHR ''m'')) Once,
           Item (Lit (CHR ''d'')) Once]"
  by code_simp

text \<open>
  Claim C1. The table of the specification: \<^verbatim>\<open>*.md\<close> accepts \<^verbatim>\<open>file.md\<close> and rejects
  \<^verbatim>\<open>file.txt\<close>; \<^verbatim>\<open>docs/*.md\<close> accepts \<^verbatim>\<open>docs/file.md\<close> and rejects \<^verbatim>\<open>other/file.md\<close>; \<^verbatim>\<open>**/*.md\<close>
  accepts \<^verbatim>\<open>file.md\<close> and \<^verbatim>\<open>docs/sub/file.md\<close>. The first four rows hold. The last two do not:
  the second \<^verbatim>\<open>replace\<close> rewrites the star of the \<^verbatim>\<open>.*\<close> that the first one wrote, and the
  fourth escapes its dot, so that \<^verbatim>\<open>**/*.md\<close> becomes a regular expression for paths that
  start with a literal dot and hold exactly one slash (\<open>double_star_regex\<close>). What
  \<open>matchesPattern\<close> returns on the six rows:
\<close>

theorem glob_table_as_computed:
  "matchesPattern ''file.md'' ''*.md'' = Some True
   \<and> matchesPattern ''file.txt'' ''*.md'' = Some False
   \<and> matchesPattern ''docs/file.md'' ''docs/*.md'' = Some True
   \<and> matchesPattern ''other/file.md'' ''docs/*.md'' = Some False
   \<and> matchesPattern ''file.md'' ''**/*.md'' = Some False
   \<and> matchesPattern ''docs/sub/file.md'' ''**/*.md'' = Some False"
proof -
  have 1: "matchesPattern ''file.md'' ''*.md'' = Some True" by code_simp
  have 2: "matchesPattern ''file.txt'' ''*.md'' = Some False" by code_simp
  have 3: "matchesPattern ''docs/file.md'' ''docs/*.md'' = Some True" by code_simp
  have 4: "matchesPattern ''other/file.md'' ''docs/*.md'' = Some False" by code_simp
  have 5: "matchesPattern ''file.md'' ''**/*.md'' = Some False" by code_simp
  have 6: "matchesPattern ''docs/sub/file.md'' ''**/*.md'' = Some False" by code_simp
  from 1 2 3 4 5 6 show ?thesis by (simp only: simp_thms)
qed

lemma double_star_accepts_dot_paths:
  "matchesPattern ''.git/notes.md'' ''**/*.md'' = Some True"
  by code_simp

lemma double_star_needs_leading_dot:
  assumes "matchesPattern p ''**/*.md'' = Some True"
  shows "p \<noteq> [] \<and> hd p = CHR ''.''"
proof -
  from assms have "regexTest
      [Item (Lit (CHR ''.'')) Once, Item NotSlash Star, Item (Lit (CHR ''/'')) Once,
       Item NotSlash Star, Item (Lit (CHR ''.'')) Once, Item (Lit (CHR ''m'')) Once,
       Item (Lit (CHR ''d'')) Once] p"
    by (simp add: matchesPattern_def double_star_regex)
  then show ?thesis
    by (cases p) (auto simp: regexTest_def split: if_splits)
qed

section \<open>The matcher is sound\<close>

lemma extendFirst_Some:
  "extendFirst x r = Some ms \<longleftrightarrow> (\<exists>m ms'. r = Some (m # ms') \<and> ms = (x # m) # ms')"
  by (cases "(x, r)" rule: extendFirst.cases) auto

lemma rmatch_concat: "rmatch r s = Some ms \<Longrightarrow> concat ms = s"
  by (induction r s arbitrary: ms rule: rmatch.induct)
     (auto simp: extendFirst_Some split: if_splits option.splits)

lemma rmatch_sound: "rmatch r s = Some ms \<Longrightarrow> list_all2 itemMatches r ms"
  by (induction r s arbitrary: ms rule: rmatch.induct)
     (auto simp: extendFirst_Some split: if_splits option.splits)

lemma rmatch_Plus_head:
  "rmatch (Item cl Plus # r) s = Some ms \<Longrightarrow> s \<noteq> [] \<and> inClass cl (hd s)"
  by (cases s) (auto split: if_splits)

lemma digit_not_space: "isDigit c \<Longrightarrow> \<not> isWhiteSpace c"
  by (auto simp: isDigit_def isWhiteSpace_def Let_def)

text \<open>
  \<open>regexTest\<close> decides the language of the sequence: a text is accepted exactly when it
  splits into one run per item. The order in which \<open>rmatch\<close> tries the splits matters only
  for what the groups hold.
\<close>
lemma rmatch_length: "rmatch r s = Some ms \<Longrightarrow> length ms = length r"
  by (induction r s arbitrary: ms rule: rmatch.induct)
     (auto simp: extendFirst_Some split: if_splits option.splits)


lemma rmatch_Star_complete:
  assumes "list_all (inClass cl) m" "rmatch r t \<noteq> None"
  shows "rmatch (Item cl Star # r) (m @ t) \<noteq> None"
  using assms
proof (induction m)
  case Nil
  then show ?case
    by (cases t) (auto split: option.splits)
next
  case (Cons x m)
  then obtain res where res: "rmatch (Item cl Star # r) (m @ t) = Some res"
    by auto
  then have "length res = Suc (length r)"
    by (simp add: rmatch_length)
  then obtain y ys where "res = y # ys"
    by (cases res) auto
  with res Cons.prems show ?case by simp
qed


lemma rmatch_complete:
  "list_all2 itemMatches r ms \<Longrightarrow> rmatch r (concat ms) \<noteq> None"
proof (induction r arbitrary: ms)
  case Nil
  then show ?case by simp
next
  case (Cons it r)
  then obtain m ms' where ms: "ms = m # ms'" and im: "itemMatches it m"
    and rest: "list_all2 itemMatches r ms'"
    by (auto simp: list_all2_Cons1)
  from Cons.IH[OF rest] have tail: "rmatch r (concat ms') \<noteq> None" .
  obtain cl q where it: "it = Item cl q" by (cases it)
  show ?case
  proof (cases q)
    case Once
    with im it obtain x where "m = [x]" "inClass cl x"
      by (cases m) auto
    with tail ms it Once show ?thesis by auto
  next
    case Star
    with im it have "list_all (inClass cl) m" by simp
    from rmatch_Star_complete[OF this tail] ms it Star show ?thesis by simp
  next
    case Plus
    with im it obtain x m' where m: "m = x # m'" and x: "inClass cl x"
      and m': "list_all (inClass cl) m'"
      by (cases m) auto
    from rmatch_Star_complete[OF m' tail]
    obtain res where res: "rmatch (Item cl Star # r) (m' @ concat ms') = Some res"
      by auto
    then have "length res = Suc (length r)"
      by (simp add: rmatch_length)
    then obtain y ys where "res = y # ys"
      by (cases res) auto
    with res m x ms it Plus show ?thesis by simp
  qed
qed


lemma regexTest_iff:
  "regexTest r s \<longleftrightarrow> (\<exists>ms. concat ms = s \<and> list_all2 itemMatches r ms)"
  unfolding regexTest_def
  using rmatch_concat rmatch_sound rmatch_complete by blast


section \<open>The directive parser\<close>

lemma matchListItem_starts_with_digit:
  "matchListItem line = Some (ty, tg) \<Longrightarrow> line \<noteq> [] \<and> isDigit (hd line)"
  unfolding matchListItem_def listItemRegex_def
  by (auto split: option.splits list.splits dest!: rmatch_Plus_head)

lemma itemMatches_Once_Lit: "itemMatches (Item (Lit c) Once) m \<longleftrightarrow> m = [c]"
  by (cases m) auto

lemma itemMatches_Plus:
  "itemMatches (Item cl Plus) m \<longleftrightarrow> m \<noteq> [] \<and> list_all (inClass cl) m"
  by (cases m) auto

lemma matchListItem_shape:
  assumes "matchListItem line = Some (ty, tg)"
  shows "\<exists>num sp1 sp2. line = num @ ''.'' @ sp1 @ ''**'' @ ty @ ''**'' @ sp2 @ tg
           \<and> num \<noteq> [] \<and> list_all (inClass Digit) num
           \<and> sp1 \<noteq> [] \<and> list_all (inClass Space) sp1
           \<and> ty \<noteq> [] \<and> list_all (inClass AsciiLetter) ty
           \<and> sp2 \<noteq> [] \<and> list_all (inClass Space) sp2
           \<and> tg \<noteq> [] \<and> list_all (inClass AnyChar) tg"
proof -
  from assms obtain num dot sp1 o1 o2 c1 c2 sp2 where
    m: "rmatch listItemRegex line = Some [num, dot, sp1, o1, o2, ty, c1, c2, sp2, tg]"
    by (auto simp: matchListItem_def split: option.splits list.splits)
  from rmatch_concat[OF m]
  have cat: "line = num @ dot @ sp1 @ o1 @ o2 @ ty @ c1 @ c2 @ sp2 @ tg"
    by simp
  from rmatch_sound[OF m]
  have cls: "(num \<noteq> [] \<and> list_all (inClass Digit) num) \<and> dot = ''.''
      \<and> (sp1 \<noteq> [] \<and> list_all (inClass Space) sp1) \<and> o1 = ''*'' \<and> o2 = ''*''
      \<and> (ty \<noteq> [] \<and> list_all (inClass AsciiLetter) ty) \<and> c1 = ''*'' \<and> c2 = ''*''
      \<and> (sp2 \<noteq> [] \<and> list_all (inClass Space) sp2)
      \<and> (tg \<noteq> [] \<and> list_all (inClass AnyChar) tg)"
    by (simp only: listItemRegex_def list_all2_Cons list_all2_Nil itemMatches_Once_Lit
        itemMatches_Plus simp_thms)
  from cls cat have "line = num @ ''.'' @ sp1 @ ''**'' @ ty @ ''**'' @ sp2 @ tg"
    by simp
  with cls show ?thesis by blast
qed

lemma trim_leading_nonspace:
  assumes "s \<noteq> []" "\<not> isWhiteSpace (hd s)"
  shows "trim s = rev (dropWhile isWhiteSpace (rev s))"
  using assms by (cases s) (auto simp: trim_def)

lemma rev_dropWhile_rev_id:
  "rev (dropWhile P (rev s)) = s \<longleftrightarrow> (s = [] \<or> \<not> P (last s))"
proof (cases "rev s")
  case Nil
  then show ?thesis by simp
next
  case (Cons x xs)
  then have s: "s = rev xs @ [x]" by (metis rev.simps(2) rev_rev_ident)
  show ?thesis
  proof (cases "P x")
    case True
    have "length (rev (dropWhile P xs)) \<le> length xs"
      by (simp add: length_dropWhile_le)
    moreover have "length (rev xs @ [x]) = Suc (length xs)"
      by simp
    ultimately have "rev (dropWhile P xs) \<noteq> rev xs @ [x]"
      by (metis Suc_n_not_le_n)
    with True s show ?thesis by simp
  next
    case False
    with s show ?thesis by simp
  qed
qed

lemma parseLine_Some:
  "parseLine line = Some d \<Longrightarrow>
     \<exists>ty tg. matchListItem line = Some (ty, tg) \<and> type d = toLowerCase ty
        \<and> target d = trim tg \<and> raw d = trim line"
  by (auto simp: parseLine_def Let_def split: option.splits if_splits)

lemma parseLine_None_iff:
  "parseLine line = None \<longleftrightarrow>
     (case matchListItem line of
        None \<Rightarrow> True
      | Some (ty, tg) \<Rightarrow>
          toLowerCase ty \<notin> set [''download'', ''unzip'', ''validate'', ''implement''])"
  by (simp add: parseLine_def Let_def split: option.splits)



















text \<open>
  Claim C9, as amended. A line that the parser takes as a directive reads: digits, a dot,
  white space, a word of letters between two pairs of stars, white space, and a last part
  that runs to the end of the line. The target of the directive is that last part (the
  second group of the match) with the white space around it trimmed. The field \<open>raw\<close> is
  the line with the white space around it trimmed, which is the line itself exactly when
  the line does not end in white space.
\<close>

theorem directive_target_and_raw:
  assumes "parseLine line = Some d"
  shows "(\<exists>num sp1 ty sp2 tg.
            line = num @ ''.'' @ sp1 @ ''**'' @ ty @ ''**'' @ sp2 @ tg
            \<and> sp2 \<noteq> [] \<and> list_all (inClass Space) sp2 \<and> tg \<noteq> []
            \<and> matchListItem line = Some (ty, tg)
            \<and> type d = toLowerCase ty \<and> target d = trim tg)
       \<and> raw d = trim line
       \<and> (raw d = line \<longleftrightarrow> \<not> isWhiteSpace (last line))"
proof -
  from assms obtain ty tg where m: "matchListItem line = Some (ty, tg)"
    and y: "type d = toLowerCase ty"
    and t: "target d = trim tg" and r: "raw d = trim line"
    using parseLine_Some by blast
  from matchListItem_shape[OF m] obtain num sp1 sp2 where
    shape: "line = num @ ''.'' @ sp1 @ ''**'' @ ty @ ''**'' @ sp2 @ tg"
      "sp2 \<noteq> []" "list_all (inClass Space) sp2" "tg \<noteq> []"
    by blast
  from m have hd: "line \<noteq> [] \<and> isDigit (hd line)"
    by (rule matchListItem_starts_with_digit)
  then have "trim line = rev (dropWhile isWhiteSpace (rev line))"
    by (simp add: trim_leading_nonspace digit_not_space)
  with r hd have "raw d = line \<longleftrightarrow> \<not> isWhiteSpace (last line)"
    by (simp add: rev_dropWhile_rev_id)
  with m shape y t r show ?thesis by blast
qed

theorem directive_target_and_raw_witness:
  "parseLine paddedLine = Some validateMd
   \<and> raw validateMd = trim paddedLine
   \<and> (raw validateMd = paddedLine \<longleftrightarrow> \<not> isWhiteSpace (last paddedLine))
   \<and> isWhiteSpace (last paddedLine)"
proof -
  have p: "parseLine paddedLine = Some validateMd"
    by code_simp
  have w: "isWhiteSpace (last paddedLine)"
    by code_simp
  from directive_target_and_raw[OF p]
  have "raw validateMd = trim paddedLine
      \<and> (raw validateMd = paddedLine \<longleftrightarrow> \<not> isWhiteSpace (last paddedLine))"
    by (rule conjunct2)
  with p w show ?thesis by blast
qed

theorem directive_raw_counterexample:
  "map_option raw (parseLine ''1. **download** x '') = Some ''1. **download** x''
   \<and> ''1. **download** x'' \<noteq> ''1. **download** x ''"
  by code_simp

section \<open>The download history is append-only\<close>

lemma processDownload_length:
  "length (downloadHistory (snd (processDownload jp outcome u this))) =
     length (downloadHistory this) + (if isFulfilled outcome then 1 else 0)"
  by (auto simp: processDownload_def pushResult_def Let_def
      split: AxiosOutcome.splits option.splits result.splits)

lemma processDownload_prefix:
  "prefix (downloadHistory this) (downloadHistory (snd (processDownload jp outcome u this)))"
  by (auto simp: processDownload_def pushResult_def Let_def
      split: AxiosOutcome.splits option.splits result.splits)

lemma processDownloads_length:
  "length (downloadHistory (processDownloads jp calls this)) =
     length (downloadHistory this) + length (filter (\<lambda>c. isFulfilled (snd c)) calls)"
  by (induction calls arbitrary: this) (auto simp: processDownload_length)

lemma processDownloads_prefix:
  "prefix (downloadHistory this) (downloadHistory (processDownloads jp calls this))"
proof (induction calls arbitrary: this)
  case Nil
  then show ?case by simp
next
  case (Cons c calls)
  obtain u outcome where c: "c = (u, outcome)" by (cases c)
  have "prefix (downloadHistory this) (downloadHistory (snd (processDownload jp outcome u this)))"
    by (rule processDownload_prefix)
  also have "prefix \<dots>
      (downloadHistory (processDownloads jp calls (snd (processDownload jp outcome u this))))"
    by (rule Cons.IH)
  finally show ?case by (simp add: c)
qed

lemma processDownloads_append:
  "processDownloads jp (cs1 @ cs2) this = processDownloads jp cs2 (processDownloads jp cs1 this)"
  by (induction cs1 arbitrary: this) auto

lemma rejected_appends_nothing:
  "processDownload jp (Rejected e) u this = (False, this)"
  "processDownload jp (RejectedOther e') u this = (False, this)"
  by (simp_all add: processDownload_def)

lemma failures_differ_in_the_log:
  "downloadFailureLog notFound = [''Download failed with status 404: Not Found'']
   \<and> downloadFailureLog timedOut =
       [''Download failed: No response received from server'',
        ''Download timed out after 30 seconds'']
   \<and> processDownload jp notFound u this = (False, this)
   \<and> processDownload jp timedOut u this = (False, this)"
proof -
  have 1: "downloadFailureLog notFound = [''Download failed with status 404: Not Found'']"
    by code_simp
  have 2: "downloadFailureLog timedOut =
       [''Download failed: No response received from server'',
        ''Download timed out after 30 seconds'']"
    by code_simp
  from 1 2 show ?thesis
    by (simp add: rejected_appends_nothing notFound_def timedOut_def)
qed

text \<open>
  Claim C2, as amended. Over any sequence of calls of \<open>processDownload\<close> the history only
  grows, by appending: the history after a part of the calls is a prefix of the history
  after all of them, so its length never decreases. After the sequence its length is the
  length before plus the number of attempts that were answered with status 200; each of
  these appends one record, a payload record or an expiry record. An attempt that axios
  rejects appends none, whether by a response with another status, by no response, by the
  timeout or by any other error.
\<close>

theorem history_append_only:
  "length (downloadHistory (processDownloads jp calls this)) =
     length (downloadHistory this) + length (filter (\<lambda>c. isFulfilled (snd c)) calls)
   \<and> prefix (downloadHistory (processDownloads jp cs1 this))
        (downloadHistory (processDownloads jp (cs1 @ cs2) this))
   \<and> length (downloadHistory (processDownloads jp cs1 this))
        \<le> length (downloadHistory (processDownloads jp (cs1 @ cs2) this))"
proof -
  have p: "prefix (downloadHistory (processDownloads jp cs1 this))
        (downloadHistory (processDownloads jp (cs1 @ cs2) this))"
    by (simp add: processDownloads_append processDownloads_prefix)
  then have "length (downloadHistory (processDownloads jp cs1 this))
        \<le> length (downloadHistory (processDownloads jp (cs1 @ cs2) this))"
    by (rule prefix_length_le)
  with p show ?thesis by (simp add: processDownloads_length)
qed

theorem history_append_only_witness:
  "length (downloadHistory (processDownloads sampleParse sampleCalls freshManager)) = 2
   \<and> length (filter (\<lambda>c. isFulfilled (snd c)) sampleCalls) = 2
   \<and> length (filter (\<lambda>c. \<not> genericNetworkOrTimeoutFailure (snd c)) sampleCalls) = 3"
proof -
  have n: "length (filter (\<lambda>c. isFulfilled (snd c)) sampleCalls) = 2"
    by code_simp
  have g: "length (filter (\<lambda>c. \<not> genericNetworkOrTimeoutFailure (snd c)) sampleCalls) = 3"
    by code_simp
  have z: "length (downloadHistory freshManager) = 0"
    by (simp add: freshManager_def)
  have "length (downloadHistory (processDownloads sampleParse sampleCalls freshManager)) =
     length (downloadHistory freshManager) + length (filter (\<lambda>c. isFulfilled (snd c)) sampleCalls)"
    using history_append_only[of sampleParse sampleCalls freshManager] by (rule conjunct1)
  with n z g show ?thesis by (simp only: simp_thms add_0)
qed

theorem non200_counterexample:
  "length (downloadHistory
      (processDownloads sampleParse [(''https://example.com/notfound.zip'', notFound)]
         freshManager)) = 0
   \<and> length (filter (\<lambda>c. \<not> genericNetworkOrTimeoutFailure (snd c))
        [(''https://example.com/notfound.zip'', notFound)]) = 1"
  by (simp add: processDownload_def notFound_def freshManager_def
      genericNetworkOrTimeoutFailure_def)

section \<open>The expiry answer\<close>

lemma strIncludes_iff: "strIncludes s t \<longleftrightarrow> (\<exists>front rear. s = front @ t @ rear)"
proof (induction s)
  case Nil
  then show ?case by auto
next
  case (Cons c cs)
  show ?case
  proof
    assume "strIncludes (c # cs) t"
    then consider "prefix t (c # cs)" | "strIncludes cs t" by auto
    then show "\<exists>front rear. c # cs = front @ t @ rear"
    proof cases
      case 1
      then obtain rear where "c # cs = t @ rear" by (auto simp: prefix_def)
      then have "c # cs = [] @ t @ rear" by simp
      then show ?thesis by blast
    next
      case 2
      with Cons.IH obtain front rear where "cs = front @ t @ rear" by blast
      then have "c # cs = (c # front) @ t @ rear" by simp
      then show ?thesis by blast
    qed
  next
    assume "\<exists>front rear. c # cs = front @ t @ rear"
    then obtain front rear where e: "c # cs = front @ t @ rear" by blast
    show "strIncludes (c # cs) t"
    proof (cases front)
      case Nil
      with e have "prefix t (c # cs)" by (simp add: prefix_def)
      then show ?thesis by simp
    next
      case (Cons f fs)
      with e have "cs = fs @ t @ rear" by simp
      with Cons.IH have "strIncludes cs t" by blast
      then show ?thesis by simp
    qed
  qed
qed

lemma toLowerCase_includes:
  assumes "m = front @ mid @ rear" "toLowerCase mid = t"
  shows "strIncludes (toLowerCase m) t"
  using assms by (auto simp: strIncludes_iff toLowerCase_def)

text \<open>
  Claim C5, as amended. When the answer has status 200, its content type holds the text
  \<^verbatim>\<open>application/json\<close>, letter for letter and in lower case, its body parses to an object,
  and the member \<^verbatim>\<open>message\<close> of the object is a string of which a part reads \<^verbatim>\<open>url expired\<close>
  once put in lower case, then \<open>processDownload\<close> returns \<^verbatim>\<open>false\<close> and appends exactly one
  record: without data, with \<open>isExpired\<close> set, and with the member \<^verbatim>\<open>instructions\<close> of the
  object, if it has one, as \<open>expiryInstructions\<close>. When the content type does not hold that
  text, or there is no content type, \<open>processDownload\<close> returns \<^verbatim>\<open>true\<close> and appends the
  answer as a payload, whatever the body says.
\<close>

theorem expired_url_recorded:
  "(header = Some (pre @ ''application/json'' @ post)
      \<and> jsonParse body = Some (JObject members)
      \<and> map_of members ''message'' = Some (JString (front @ mid @ rear))
      \<and> toLowerCase mid = ''url expired''
    \<longrightarrow> processDownload jsonParse (Fulfilled header body) u this =
          (False,
           this\<lparr>downloadHistory := downloadHistory this @
             [\<lparr>url = u, data = None, contentType = pre @ ''application/json'' @ post,
               isExpired = True,
               expiryInstructions = map_of members ''instructions''\<rparr>]\<rparr>))
   \<and> ((\<forall>a b. header \<noteq> Some (a @ ''application/json'' @ b))
    \<longrightarrow> processDownload jsonParse (Fulfilled header body) u this =
          (True,
           this\<lparr>downloadHistory := downloadHistory this @
             [\<lparr>url = u, data = Some body,
               contentType = (case header of None \<Rightarrow> [] | Some h \<Rightarrow> h),
               isExpired = False, expiryInstructions = None\<rparr>]\<rparr>))"
proof (intro conjI impI)
  assume h: "header = Some (pre @ ''application/json'' @ post)
      \<and> jsonParse body = Some (JObject members)
      \<and> map_of members ''message'' = Some (JString (front @ mid @ rear))
      \<and> toLowerCase mid = ''url expired''"
  have ct: "strIncludes (pre @ ''application/json'' @ post) ''application/json''"
    unfolding strIncludes_iff by blast
  have inc: "strIncludes (toLowerCase (front @ mid @ rear)) ''url expired''"
    using h toLowerCase_includes[of "front @ mid @ rear" front mid rear] by blast
  have "mid \<noteq> []"
    using h by (auto simp: toLowerCase_def)
  with inc ct h show "processDownload jsonParse (Fulfilled header body) u this =
          (False,
           this\<lparr>downloadHistory := downloadHistory this @
             [\<lparr>url = u, data = None, contentType = pre @ ''application/json'' @ post,
               isExpired = True,
               expiryInstructions = map_of members ''instructions''\<rparr>]\<rparr>)"
    by (simp add: processDownload_def pushResult_def)
next
  assume n: "\<forall>a b. header \<noteq> Some (a @ ''application/json'' @ b)"
  have "\<not> strIncludes (case header of None \<Rightarrow> [] | Some h \<Rightarrow> h) ''application/json''"
  proof (cases header)
    case None
    then show ?thesis by simp
  next
    case (Some h)
    with n show ?thesis unfolding strIncludes_iff by auto
  qed
  then show "processDownload jsonParse (Fulfilled header body) u this =
          (True,
           this\<lparr>downloadHistory := downloadHistory this @
             [\<lparr>url = u, data = Some body,
               contentType = (case header of None \<Rightarrow> [] | Some h \<Rightarrow> h),
               isExpired = False, expiryInstructions = None\<rparr>]\<rparr>)"
    by (simp add: processDownload_def pushResult_def Let_def)
qed

theorem expired_url_recorded_witness:
  "processDownload sampleParse (Fulfilled (Some ''application/json; charset=utf-8'') expiryBody)
     ''https://example.com/expired.zip'' freshManager =
     (False,
      freshManager\<lparr>downloadHistory := downloadHistory freshManager @
        [\<lparr>url = ''https://example.com/expired.zip'', data = None,
          contentType = ''application/json; charset=utf-8'', isExpired = True,
          expiryInstructions = Some (JString ''contact support'')\<rparr>]\<rparr>)
   \<and> processDownload sampleParse (Fulfilled (Some ''application/problem+json'') expiryBody)
     ''https://example.com/expired.zip'' freshManager =
     (True,
      freshManager\<lparr>downloadHistory := downloadHistory freshManager @
        [\<lparr>url = ''https://example.com/expired.zip'', data = Some expiryBody,
          contentType = ''application/problem+json'', isExpired = False,
          expiryInstructions = None\<rparr>]\<rparr>)"
proof -
  have 1: "Some ''application/json; charset=utf-8''
      = Some ([] @ ''application/json'' @ ''; charset=utf-8'')"
    by simp
  have 2: "sampleParse expiryBody =
      Some (JObject [(''message'', JString ''URL expired''),
                     (''instructions'', JString ''contact support'')])"
    by (simp add: sampleParse_def)
  have 3: "map_of [(''message'', JString ''URL expired''),
                   (''instructions'', JString ''contact support'' :: unit JSON)] ''message''
           = Some (JString ([] @ ''URL expired'' @ []))"
    by simp
  have 5: "toLowerCase ''URL expired'' = ''url expired''"
    by code_simp
  have 6: "map_of [(''message'', JString ''URL expired''),
                   (''instructions'', JString ''contact support'' :: unit JSON)] ''instructions''
           = Some (JString ''contact support'')"
    by simp
  have 7: "[] @ ''application/json'' @ ''; charset=utf-8'' = ''application/json; charset=utf-8''"
    by simp
  note inst = expired_url_recorded
      [where header = "Some ''application/json; charset=utf-8''"
         and pre = "[]" and post = "''; charset=utf-8''"
         and body = expiryBody and jsonParse = sampleParse
         and members = "[(''message'', JString ''URL expired''),
                         (''instructions'', JString ''contact support'')]"
         and front = "[]" and mid = "''URL expired''" and rear = "[]"
         and u = "''https://example.com/expired.zip''" and this = freshManager]
  have a: "processDownload sampleParse (Fulfilled (Some ''application/json; charset=utf-8'') expiryBody)
     ''https://example.com/expired.zip'' freshManager =
     (False,
      freshManager\<lparr>downloadHistory := downloadHistory freshManager @
        [\<lparr>url = ''https://example.com/expired.zip'', data = None,
          contentType = [] @ ''application/json'' @ ''; charset=utf-8'', isExpired = True,
          expiryInstructions = map_of [(''message'', JString ''URL expired''),
                         (''instructions'', JString ''contact support'')] ''instructions''\<rparr>]\<rparr>)"
    by (rule inst[THEN conjunct1, THEN mp]) (intro conjI, rule 1, rule 2, rule 3, rule 5)
  have n: "\<not> strIncludes ''application/problem+json'' ''application/json''"
    by code_simp
  have o: "\<forall>a b. Some ''application/problem+json'' \<noteq> Some (a @ ''application/json'' @ b)"
    using n unfolding strIncludes_iff by blast
  note inst2 = expired_url_recorded
      [where header = "Some ''application/problem+json''"
         and body = expiryBody and jsonParse = sampleParse
         and u = "''https://example.com/expired.zip''" and this = freshManager]
  have b: "processDownload sampleParse (Fulfilled (Some ''application/problem+json'') expiryBody)
     ''https://example.com/expired.zip'' freshManager =
     (True,
      freshManager\<lparr>downloadHistory := downloadHistory freshManager @
        [\<lparr>url = ''https://example.com/expired.zip'', data = Some expiryBody,
          contentType = (case Some ''application/problem+json'' of None \<Rightarrow> [] | Some h \<Rightarrow> h),
          isExpired = False, expiryInstructions = None\<rparr>]\<rparr>)"
    by (rule inst2[THEN conjunct2, THEN mp]) (rule o)
  from a have a': "processDownload sampleParse (Fulfilled (Some ''application/json; charset=utf-8'') expiryBody)
     ''https://example.com/expired.zip'' freshManager =
     (False,
      freshManager\<lparr>downloadHistory := downloadHistory freshManager @
        [\<lparr>url = ''https://example.com/expired.zip'', data = None,
          contentType = ''application/json; charset=utf-8'', isExpired = True,
          expiryInstructions = Some (JString ''contact support'')\<rparr>]\<rparr>)"
    by (simp only: 6 7)
  from b have b': "processDownload sampleParse (Fulfilled (Some ''application/problem+json'') expiryBody)
     ''https://example.com/expired.zip'' freshManager =
     (True,
      freshManager\<lparr>downloadHistory := downloadHistory freshManager @
        [\<lparr>url = ''https://example.com/expired.zip'', data = Some expiryBody,
          contentType = ''application/problem+json'', isExpired = False,
          expiryInstructions = None\<rparr>]\<rparr>)"
    by (simp only: option.case)
  from a' b' show ?thesis by (rule conjI)
qed

text \<open>
  The test of the source is on the letters: a JSON media type that is written in capitals is
  not recognised, and the answer that reports the expiry is stored as a payload.
\<close>

theorem json_media_type_counterexample:
  "isJsonMediaType ''Application/JSON''
   \<and> sampleParse expiryBody =
       Some (JObject [(''message'', JString ''URL expired''),
                      (''instructions'', JString ''contact support'')])
   \<and> processDownload sampleParse (Fulfilled (Some ''Application/JSON'') expiryBody)
        ''https://example.com/expired.zip'' freshManager =
       (True,
        \<lparr>implementationPlanPath = ''/test/project/docs/implementation_plan.md'',
         downloadHistory =
           [\<lparr>url = ''https://example.com/expired.zip'', data = Some expiryBody,
             contentType = ''Application/JSON'', isExpired = False,
             expiryInstructions = None\<rparr>]\<rparr>)"
proof -
  have 1: "isJsonMediaType ''Application/JSON''" by code_simp
  have 2: "sampleParse expiryBody =
       Some (JObject [(''message'', JString ''URL expired''),
                      (''instructions'', JString ''contact support'')])"
    by (simp add: sampleParse_def)
  have 3: "processDownload sampleParse (Fulfilled (Some ''Application/JSON'') expiryBody)
        ''https://example.com/expired.zip'' freshManager =
       (True,
        \<lparr>implementationPlanPath = ''/test/project/docs/implementation_plan.md'',
         downloadHistory =
           [\<lparr>url = ''https://example.com/expired.zip'', data = Some expiryBody,
             contentType = ''Application/JSON'', isExpired = False,
             expiryInstructions = None\<rparr>]\<rparr>)"
    by code_simp
  from 1 2 3 show ?thesis by (simp only: simp_thms)
qed

section \<open>The preconditions of extraction\<close>

lemma unzip_empty_history:
  "downloadHistory this = [] \<Longrightarrow>
      processUnzip io targetPath this =
        \<lparr>promise = Returned False, consoleErrors = [''No downloads available to unzip''],
         fsOps = []\<rparr>"
  by (simp add: processUnzip_def getDownloadHistory_def)

lemma unzip_no_data:
  "downloadHistory this \<noteq> [] \<Longrightarrow> data (last (downloadHistory this)) = None \<Longrightarrow>
      processUnzip io targetPath this =
        \<lparr>promise = Returned False, consoleErrors = [''No data available in latest download''],
         fsOps = []\<rparr>"
  by (simp add: processUnzip_def getDownloadHistory_def Let_def last_conv_nth)

lemma unzip_not_archive:
  "downloadHistory this \<noteq> [] \<Longrightarrow> data (last (downloadHistory this)) = Some bytes \<Longrightarrow>
   \<not> strIncludes (contentType (last (downloadHistory this))) ''zip'' \<Longrightarrow>
   \<not> strIncludes (contentType (last (downloadHistory this))) ''octet-stream'' \<Longrightarrow>
      processUnzip io targetPath this =
        \<lparr>promise = Returned False,
         consoleErrors =
           [''Content type '' @ contentType (last (downloadHistory this)) @ '' is not a zip file''],
         fsOps = []\<rparr>"
  by (simp add: processUnzip_def getDownloadHistory_def Let_def last_conv_nth)

lemma unzip_messages_distinct:
  "''No downloads available to unzip'' \<noteq> ''No data available in latest download''
   \<and> ''No downloads available to unzip'' \<noteq> ''Content type '' @ ct @ '' is not a zip file''
   \<and> ''No data available in latest download'' \<noteq> ''Content type '' @ ct @ '' is not a zip file''"
  by simp

lemma unzip_passes_check:
  assumes "downloadHistory this \<noteq> []" "data (last (downloadHistory this)) = Some bytes"
      and "strIncludes (contentType (last (downloadHistory this))) ''zip''
           \<or> strIncludes (contentType (last (downloadHistory this))) ''octet-stream''"
  shows "fsOps (processUnzip io targetPath this) \<noteq> []
       \<and> hd (fsOps (processUnzip io targetPath this))
           = Mkdir (if targetPath = [] then ''documentation'' else targetPath)"
  using assms
  by (auto simp: processUnzip_def getDownloadHistory_def Let_def last_conv_nth unzipFailed_def
      split: option.splits prod.splits)

text \<open>
  Claim C6, as amended. \<open>processUnzip\<close> returns \<^verbatim>\<open>false\<close> without any call to the file system,
  and with an error line of its own, in each of three cases: the history is empty; the
  latest record has no data; the content type of the latest record holds neither the text
  \<^verbatim>\<open>zip\<close> nor the text \<^verbatim>\<open>octet-stream\<close>. The three error lines differ from one another. A
  content type that holds one of the two texts passes, whatever media type it declares:
  with a record that has data, \<open>processUnzip\<close> then goes on to the file system, first to
  create the destination directory.
\<close>

theorem unzip_preconditions:
  "(downloadHistory this = [] \<longrightarrow>
      processUnzip io targetPath this =
        \<lparr>promise = Returned False, consoleErrors = [''No downloads available to unzip''],
         fsOps = []\<rparr>)
   \<and> (downloadHistory this \<noteq> [] \<and> data (last (downloadHistory this)) = None \<longrightarrow>
      processUnzip io targetPath this =
        \<lparr>promise = Returned False, consoleErrors = [''No data available in latest download''],
         fsOps = []\<rparr>)
   \<and> (downloadHistory this \<noteq> [] \<and> data (last (downloadHistory this)) \<noteq> None
        \<and> \<not> strIncludes (contentType (last (downloadHistory this))) ''zip''
        \<and> \<not> strIncludes (contentType (last (downloadHistory this))) ''octet-stream'' \<longrightarrow>
      processUnzip io targetPath this =
        \<lparr>promise = Returned False,
         consoleErrors =
           [''Content type '' @ contentType (last (downloadHistory this)) @ '' is not a zip file''],
         fsOps = []\<rparr>)
   \<and> ''No downloads available to unzip'' \<noteq> ''No data available in latest download''
   \<and> ''No downloads available to unzip'' \<noteq> ''Content type '' @ ct @ '' is not a zip file''
   \<and> ''No data available in latest download'' \<noteq> ''Content type '' @ ct @ '' is not a zip file''
   \<and> (downloadHistory this \<noteq> [] \<and> data (last (downloadHistory this)) \<noteq> None
        \<and> (strIncludes (contentType (last (downloadHistory this))) ''zip''
             \<or> strIncludes (contentType (last (downloadHistory this))) ''octet-stream'') \<longrightarrow>
      fsOps (processUnzip io targetPath this) \<noteq> []
      \<and> hd (fsOps (processUnzip io targetPath this))
          = Mkdir (if targetPath = [] then ''documentation'' else targetPath))"
proof -
  have 1: "downloadHistory this \<noteq> [] \<and> data (last (downloadHistory this)) \<noteq> None
        \<and> (strIncludes (contentType (last (downloadHistory this))) ''zip''
             \<or> strIncludes (contentType (last (downloadHistory this))) ''octet-stream'') \<longrightarrow>
      fsOps (processUnzip io targetPath this) \<noteq> []
      \<and> hd (fsOps (processUnzip io targetPath this))
          = Mkdir (if targetPath = [] then ''documentation'' else targetPath)"
    using unzip_passes_check[of this _ io targetPath] by blast
  have 2: "(downloadHistory this = [] \<longrightarrow>
      processUnzip io targetPath this =
        \<lparr>promise = Returned False, consoleErrors = [''No downloads available to unzip''],
         fsOps = []\<rparr>)
   \<and> (downloadHistory this \<noteq> [] \<and> data (last (downloadHistory this)) = None \<longrightarrow>
      processUnzip io targetPath this =
        \<lparr>promise = Returned False, consoleErrors = [''No data available in latest download''],
         fsOps = []\<rparr>)
   \<and> (downloadHistory this \<noteq> [] \<and> data (last (downloadHistory this)) \<noteq> None
        \<and> \<not> strIncludes (contentType (last (downloadHistory this))) ''zip''
        \<and> \<not> strIncludes (contentType (last (downloadHistory this))) ''octet-stream'' \<longrightarrow>
      processUnzip io targetPath this =
        \<lparr>promise = Returned False,
         consoleErrors =
           [''Content type '' @ contentType (last (downloadHistory this)) @ '' is not a zip file''],
         fsOps = []\<rparr>)
   \<and> ''No downloads available to unzip'' \<noteq> ''No data available in latest download''
   \<and> ''No downloads available to unzip'' \<noteq> ''Content type '' @ ct @ '' is not a zip file''
   \<and> ''No data available in latest download'' \<noteq> ''Content type '' @ ct @ '' is not a zip file''"
    using unzip_empty_history[of this io targetPath] unzip_no_data[of this io targetPath]
      unzip_not_archive[of this _ io targetPath] unzip_messages_distinct[of ct]
    by blast
  from 2 1 show ?thesis by blast
qed

theorem unzip_preconditions_witness:
  "processUnzip noDisk ''out'' freshManager =
     \<lparr>promise = Returned False, consoleErrors = [''No downloads available to unzip''],
      fsOps = []\<rparr>
   \<and> processUnzip noDisk ''out'' expiredManager =
     \<lparr>promise = Returned False, consoleErrors = [''No data available in latest download''],
      fsOps = []\<rparr>
   \<and> processUnzip noDisk ''out'' textManager =
     \<lparr>promise = Returned False,
      consoleErrors = [''Content type '' @ contentType (last (downloadHistory textManager))
                         @ '' is not a zip file''],
      fsOps = []\<rparr>
   \<and> contentType (last (downloadHistory textManager)) = ''text/plain''
   \<and> fsOps (processUnzip noDisk ''out'' afterFirstDownload) \<noteq> []
   \<and> hd (fsOps (processUnzip noDisk ''out'' afterFirstDownload)) = Mkdir ''out''"
proof -
  have a: "downloadHistory freshManager = []"
    by (simp add: freshManager_def)
  have b: "downloadHistory expiredManager \<noteq> []
      \<and> data (last (downloadHistory expiredManager)) = None"
    by code_simp
  have c: "downloadHistory textManager \<noteq> []
      \<and> data (last (downloadHistory textManager)) \<noteq> None
      \<and> \<not> strIncludes (contentType (last (downloadHistory textManager))) ''zip''
      \<and> \<not> strIncludes (contentType (last (downloadHistory textManager))) ''octet-stream''"
    by code_simp
  have d: "contentType (last (downloadHistory textManager)) = ''text/plain''"
    by code_simp
  have e: "downloadHistory afterFirstDownload \<noteq> []
      \<and> data (last (downloadHistory afterFirstDownload)) \<noteq> None
      \<and> (strIncludes (contentType (last (downloadHistory afterFirstDownload))) ''zip''
           \<or> strIncludes (contentType (last (downloadHistory afterFirstDownload)))
                ''octet-stream'')"
    by code_simp
  have 1: "processUnzip noDisk ''out'' freshManager =
     \<lparr>promise = Returned False, consoleErrors = [''No downloads available to unzip''],
      fsOps = []\<rparr>"
    using unzip_preconditions[of freshManager noDisk "''out''" "[]"] a by blast
  have 2: "processUnzip noDisk ''out'' expiredManager =
     \<lparr>promise = Returned False, consoleErrors = [''No data available in latest download''],
      fsOps = []\<rparr>"
    using unzip_preconditions[of expiredManager noDisk "''out''" "[]"] b by blast
  have 3: "processUnzip noDisk ''out'' textManager =
     \<lparr>promise = Returned False,
      consoleErrors = [''Content type '' @ contentType (last (downloadHistory textManager))
                         @ '' is not a zip file''],
      fsOps = []\<rparr>"
    using unzip_preconditions[of textManager noDisk "''out''" "[]"] c by blast
  have "fsOps (processUnzip noDisk ''out'' afterFirstDownload) \<noteq> []
      \<and> hd (fsOps (processUnzip noDisk ''out'' afterFirstDownload))
          = Mkdir (if ''out'' = [] then ''documentation'' else ''out'')"
    using unzip_preconditions[of afterFirstDownload noDisk "''out''" "[]"] e by blast
  then have 4: "fsOps (processUnzip noDisk ''out'' afterFirstDownload) \<noteq> []
      \<and> hd (fsOps (processUnzip noDisk ''out'' afterFirstDownload)) = Mkdir ''out''"
    by simp
  from 1 2 3 d 4 show ?thesis by (simp only: simp_thms)
qed

text \<open>
  A text file whose name holds \<^verbatim>\<open>zip\<close> is not an archive by its media type; it passes the
  check all the same, is written to the disk, and fails only when it is opened.
\<close>

theorem archive_type_counterexample:
  "mediaType (contentType (last (downloadHistory zipcodesManager))) = ''text/plain''
   \<and> data (last (downloadHistory zipcodesManager)) = Some ''10001,New York''
   \<and> processUnzip plainDisk ''out'' zipcodesManager =
       \<lparr>promise = Returned False,
        consoleErrors =
          [''Unzip failed: Error: end of central directory record signature not found''],
        fsOps = [Mkdir ''out'', WriteFile ''out/temp_download.zip'' ''10001,New York'',
                 OpenZip ''out/temp_download.zip'']\<rparr>"
proof -
  have 1: "mediaType (contentType (last (downloadHistory zipcodesManager))) = ''text/plain''"
    by code_simp
  have 2: "data (last (downloadHistory zipcodesManager)) = Some ''10001,New York''"
    by code_simp
  have 3: "processUnzip plainDisk ''out'' zipcodesManager =
       \<lparr>promise = Returned False,
        consoleErrors =
          [''Unzip failed: Error: end of central directory record signature not found''],
        fsOps = [Mkdir ''out'', WriteFile ''out/temp_download.zip'' ''10001,New York'',
                 OpenZip ''out/temp_download.zip'']\<rparr>"
    by code_simp
  from 1 2 3 show ?thesis by (simp only: simp_thms)
qed

section \<open>The workflow\<close>

lemma runDirectives_events:
  "runDirectives pd ds w = (r, evs, w') \<Longrightarrow>
     map directiveOf evs = map Some (take (length evs) ds)"
proof (induction ds arbitrary: w r evs w')
  case Nil
  then show ?case by simp
next
  case (Cons d ds)
  show ?case
  proof (cases "pd d w")
    case (Pair res w1)
    show ?thesis
    proof (cases res)
      case (Returned b)
      show ?thesis
      proof (cases b)
        case True
        obtain r2 evs2 w2 where rec: "runDirectives pd ds w1 = (r2, evs2, w2)"
          by (cases "runDirectives pd ds w1") auto
        with Cons.prems Pair Returned True have "evs = Dispatched d (Returned True) # evs2"
          by simp
        moreover from Cons.IH[OF rec]
        have "map directiveOf evs2 = map Some (take (length evs2) ds)" .
        ultimately show ?thesis by simp
      next
        case False
        with Cons.prems Pair Returned show ?thesis by auto
      qed
    next
      case (Threw e)
      with Cons.prems Pair show ?thesis by auto
    qed
  qed
qed

lemma runDirectives_failure_last:
  "runDirectives pd ds w = (r, evs, w') \<Longrightarrow> k < length evs \<Longrightarrow>
     evs ! k = Dispatched d (Returned False) \<Longrightarrow> length evs = Suc k \<and> r = Returned False"
proof (induction ds arbitrary: w r evs w' k)
  case Nil
  then show ?case by simp
next
  case (Cons d0 ds)
  show ?case
  proof (cases "pd d0 w")
    case (Pair res w1)
    show ?thesis
    proof (cases res)
      case (Returned b)
      show ?thesis
      proof (cases b)
        case True
        obtain r2 evs2 w2 where rec: "runDirectives pd ds w1 = (r2, evs2, w2)"
          by (cases "runDirectives pd ds w1") auto
        with Cons.prems(1) Pair Returned True
        have e: "evs = Dispatched d0 (Returned True) # evs2" and r: "r = r2"
          by simp_all
        with Cons.prems(2,3) obtain k' where k: "k = Suc k'"
          by (cases k) auto
        with e Cons.prems(2,3)
        have "k' < length evs2" "evs2 ! k' = Dispatched d (Returned False)"
          by simp_all
        from Cons.IH[OF rec this] e r k show ?thesis by simp
      next
        case False
        with Cons.prems Pair Returned show ?thesis by auto
      qed
    next
      case (Threw e)
      with Cons.prems Pair show ?thesis by auto
    qed
  qed
qed

lemma runDirectives_no_fallback:
  "runDirectives pd ds w = (r, evs, w') \<Longrightarrow> FallbackRun \<notin> set evs"
proof (induction ds arbitrary: w r evs w')
  case Nil
  then show ?case by simp
next
  case (Cons d ds)
  then show ?case
    by (auto split: prod.splits result.splits bool.splits if_splits)
qed

lemma runDirectives_Threw:
  "runDirectives pd ds w = (Threw e, evs, w') \<Longrightarrow> \<exists>d v v'. pd d v = (Threw e, v')"
proof (induction ds arbitrary: w evs w')
  case Nil
  then show ?case by simp
next
  case (Cons d ds)
  show ?case
  proof (cases "pd d w")
    case (Pair res w1)
    show ?thesis
    proof (cases res)
      case (Returned b)
      show ?thesis
      proof (cases b)
        case True
        obtain r2 evs2 w2 where rec: "runDirectives pd ds w1 = (r2, evs2, w2)"
          by (cases "runDirectives pd ds w1") auto
        with Cons.prems Pair Returned True have "r2 = Threw e" by simp
        with rec Cons.IH show ?thesis by blast
      next
        case False
        with Cons.prems Pair Returned show ?thesis by simp
      qed
    next
      case (Threw e')
      with Cons.prems Pair have "e' = e" by simp
      with Pair Threw show ?thesis by blast
    qed
  qed
qed

lemma map_filter_of_Some:
  "map f xs = map Some ys \<Longrightarrow> List.map_filter f xs = ys"
  by (induction xs arbitrary: ys) (auto simp: List.map_filter_simps)

lemma dispatched_snoc_fallback: "dispatched (evs @ [FallbackRun]) = dispatched evs"
  by (simp add: dispatched_def List.map_filter_def)

lemma runDirectives_dispatched:
  "runDirectives pd ds w = (r, evs, w') \<Longrightarrow> dispatched evs = take (length evs) ds"
  unfolding dispatched_def by (rule map_filter_of_Some) (rule runDirectives_events)

lemma workflow_events:
  assumes "readFile = Returned content" "parsePlanText content \<noteq> []"
      and "runDirectives (processDirective hs) (parsePlanText content) w = (r, evs, w')"
  shows "events (processWorkflow hs readFile w) = evs
       \<or> events (processWorkflow hs readFile w) = evs @ [FallbackRun]"
    and "r = Returned b \<Longrightarrow> processWorkflow hs readFile w = \<lparr>succeeded = b, events = evs, world = w'\<rparr>"
    and "r = Threw e \<Longrightarrow> processWorkflow hs readFile w = caught e evs w'"
  using assms
  by (auto simp: processWorkflow_def parseImplementationPlan_def caught_def split: result.splits)

lemma fail_fast_core:
  assumes k: "k < length (events (processWorkflow hs readFile w))"
      and f: "events (processWorkflow hs readFile w) ! k = Dispatched d (Returned False)"
  shows "length (events (processWorkflow hs readFile w)) = Suc k
       \<and> \<not> succeeded (processWorkflow hs readFile w)
       \<and> (\<exists>content. readFile = Returned content
            \<and> dispatched (events (processWorkflow hs readFile w))
                = take (Suc k) (parsePlanText content))"
proof (cases readFile)
  case (Threw e)
  with k f show ?thesis
    by (auto simp: processWorkflow_def parseImplementationPlan_def caught_def split: if_splits)
next
  case (Returned content)
  show ?thesis
  proof (cases "parsePlanText content = []")
    case True
    with Returned k f show ?thesis
      by (auto simp: processWorkflow_def parseImplementationPlan_def)
  next
    case False
    obtain r evs w' where
      run: "runDirectives (processDirective hs) (parsePlanText content) w = (r, evs, w')"
      by (cases "runDirectives (processDirective hs) (parsePlanText content) w") auto
    note ord = runDirectives_dispatched[OF run]
    show ?thesis
    proof (cases r)
      case (Returned b)
      from workflow_events(2)[OF \<open>readFile = Returned content\<close> False run Returned]
      have ev: "events (processWorkflow hs readFile w) = evs"
        and su: "succeeded (processWorkflow hs readFile w) = b"
        by simp_all
      from runDirectives_failure_last[OF run] k f ev
      have "length evs = Suc k \<and> r = Returned False" by simp
      with ev su Returned ord \<open>readFile = Returned content\<close> show ?thesis by simp
    next
      case (Threw e)
      note c = workflow_events(3)[OF \<open>readFile = Returned content\<close> False run Threw]
      show ?thesis
      proof (cases "k < length evs")
        case True
        with c have "events (processWorkflow hs readFile w) ! k = evs ! k"
          by (simp add: caught_def nth_append)
        with f have "evs ! k = Dispatched d (Returned False)" by simp
        from runDirectives_failure_last[OF run True this] Threw show ?thesis by simp
      next
        case False
        with c k f show ?thesis
          by (auto simp: caught_def nth_append split: if_splits)
      qed
    qed
  qed
qed

lemma dispatch_order:
  "prefix (dispatched (events (processWorkflow hs readFile w)))
     (case readFile of Returned content \<Rightarrow> parsePlanText content | Threw e \<Rightarrow> [])"
proof (cases readFile)
  case (Threw e)
  then show ?thesis
    by (simp add: processWorkflow_def parseImplementationPlan_def caught_def dispatched_def
        List.map_filter_def)
next
  case (Returned content)
  show ?thesis
  proof (cases "parsePlanText content = []")
    case True
    with Returned show ?thesis
      by (simp add: processWorkflow_def parseImplementationPlan_def dispatched_def
          List.map_filter_def)
  next
    case False
    obtain r evs w' where
      run: "runDirectives (processDirective hs) (parsePlanText content) w = (r, evs, w')"
      by (cases "runDirectives (processDirective hs) (parsePlanText content) w") auto
    from workflow_events(1)[OF Returned False run]
    have "dispatched (events (processWorkflow hs readFile w)) = dispatched evs"
      by (auto simp: dispatched_snoc_fallback)
    with runDirectives_dispatched[OF run] Returned show ?thesis
      by (simp add: take_is_prefix)
  qed
qed

lemma worldAfter_simps:
  "worldAfter pd [] w = w"
  "worldAfter pd (d # ds) w = worldAfter pd ds (snd (pd d w))"
  by (simp_all add: worldAfter_def)

lemma runDirectives_world:
  "runDirectives pd ds w = (r, evs, w') \<Longrightarrow>
     w' = worldAfter pd (take (length evs) ds) w
     \<and> (\<forall>i<length evs. evs ! i =
           Dispatched (ds ! i) (fst (pd (ds ! i) (worldAfter pd (take i ds) w))))"
proof (induction ds arbitrary: w r evs w')
  case Nil
  then show ?case by (simp add: worldAfter_simps)
next
  case (Cons d ds)
  show ?case
  proof (cases "pd d w")
    case (Pair res w1)
    show ?thesis
    proof (cases res)
      case (Returned b)
      show ?thesis
      proof (cases b)
        case True
        obtain r2 evs2 w2 where rec: "runDirectives pd ds w1 = (r2, evs2, w2)"
          by (cases "runDirectives pd ds w1") auto
        with Cons.prems Pair Returned True
        have e: "evs = Dispatched d (Returned True) # evs2" and w: "w' = w2"
          by simp_all
        from Cons.IH[OF rec]
        have ih1: "w2 = worldAfter pd (take (length evs2) ds) w1"
          and ih2: "\<forall>i<length evs2. evs2 ! i =
             Dispatched (ds ! i) (fst (pd (ds ! i) (worldAfter pd (take i ds) w1)))"
          by simp_all
        have a: "w' = worldAfter pd (take (length evs) (d # ds)) w"
          using e w ih1 Pair by (simp add: worldAfter_simps)
        have b: "\<forall>i<length evs. evs ! i =
           Dispatched ((d # ds) ! i) (fst (pd ((d # ds) ! i) (worldAfter pd (take i (d # ds)) w)))"
        proof (intro allI impI)
          fix i assume i: "i < length evs"
          show "evs ! i =
           Dispatched ((d # ds) ! i) (fst (pd ((d # ds) ! i) (worldAfter pd (take i (d # ds)) w)))"
          proof (cases i)
            case 0
            with e Pair Returned True show ?thesis by (simp add: worldAfter_simps)
          next
            case (Suc j)
            with i e have "j < length evs2" by simp
            with ih2 have "evs2 ! j =
               Dispatched (ds ! j) (fst (pd (ds ! j) (worldAfter pd (take j ds) w1)))"
              by blast
            with Suc e Pair show ?thesis by (simp add: worldAfter_simps)
          qed
        qed
        from a b show ?thesis by blast
      next
        case False
        with Cons.prems Pair Returned show ?thesis by (auto simp: worldAfter_simps)
      qed
    next
      case (Threw e)
      with Cons.prems Pair show ?thesis by (auto simp: worldAfter_simps)
    qed
  qed
qed

lemma workflow_world:
  "world (processWorkflow hs readFile w)
     = worldAfter (processDirective hs) (dispatched (events (processWorkflow hs readFile w))) w
   \<and> (\<forall>i<length (dispatched (events (processWorkflow hs readFile w))).
        events (processWorkflow hs readFile w) ! i =
          Dispatched (dispatched (events (processWorkflow hs readFile w)) ! i)
            (fst (processDirective hs (dispatched (events (processWorkflow hs readFile w)) ! i)
               (worldAfter (processDirective hs)
                  (take i (dispatched (events (processWorkflow hs readFile w)))) w))))"
proof (cases readFile)
  case (Threw e)
  then show ?thesis
    by (simp add: processWorkflow_def parseImplementationPlan_def caught_def dispatched_def
        List.map_filter_def worldAfter_simps)
next
  case (Returned content)
  show ?thesis
  proof (cases "parsePlanText content = []")
    case True
    with Returned show ?thesis
      by (simp add: processWorkflow_def parseImplementationPlan_def dispatched_def
          List.map_filter_def worldAfter_simps)
  next
    case False
    obtain r evs w' where
      run: "runDirectives (processDirective hs) (parsePlanText content) w = (r, evs, w')"
      by (cases "runDirectives (processDirective hs) (parsePlanText content) w") auto
    let ?ds = "parsePlanText content"
    let ?run = "processWorkflow hs readFile w"
    from runDirectives_world[OF run]
    have w': "w' = worldAfter (processDirective hs) (take (length evs) ?ds) w"
      and ev: "\<forall>i<length evs. evs ! i =
           Dispatched (?ds ! i) (fst (processDirective hs (?ds ! i)
              (worldAfter (processDirective hs) (take i ?ds) w)))"
      by simp_all
    have d: "dispatched evs = take (length evs) ?ds"
      by (rule runDirectives_dispatched[OF run])
    have "length (map directiveOf evs) = length (map Some (take (length evs) ?ds))"
      using runDirectives_events[OF run] by simp
    then have le: "length evs \<le> length ?ds"
      by simp
    have wr: "world ?run = w'"
      using Returned False run
      by (auto simp: processWorkflow_def parseImplementationPlan_def caught_def split: result.splits)
    from workflow_events(1)[OF Returned False run]
    have de: "dispatched (events ?run) = dispatched evs"
      and nth: "\<forall>i<length evs. events ?run ! i = evs ! i"
      by (auto simp: dispatched_snoc_fallback nth_append)
    have len: "length (dispatched (events ?run)) = length evs"
      using de d le by simp
    have 1: "world ?run = worldAfter (processDirective hs) (dispatched (events ?run)) w"
      using wr w' de d by simp
    have 2: "\<forall>i<length (dispatched (events ?run)).
        events ?run ! i =
          Dispatched (dispatched (events ?run) ! i)
            (fst (processDirective hs (dispatched (events ?run) ! i)
               (worldAfter (processDirective hs) (take i (dispatched (events ?run))) w)))"
    proof (intro allI impI)
      fix i assume "i < length (dispatched (events ?run))"
      with len have i: "i < length evs" by simp
      with nth ev have "events ?run ! i = Dispatched (?ds ! i) (fst (processDirective hs (?ds ! i)
              (worldAfter (processDirective hs) (take i ?ds) w)))"
        by simp
      moreover from i have "dispatched (events ?run) ! i = ?ds ! i"
        using de d by simp
      moreover from i have "take i (dispatched (events ?run)) = take i ?ds"
        using de d by (simp add: min_def)
      ultimately show "events ?run ! i =
          Dispatched (dispatched (events ?run) ! i)
            (fst (processDirective hs (dispatched (events ?run) ! i)
               (worldAfter (processDirective hs) (take i (dispatched (events ?run))) w)))"
        by simp
    qed
    from 1 2 show ?thesis by blast
  qed
qed

lemma dispatch_rule:
  "processDirective hs \<lparr>type = ''download'', target = t, raw = l\<rparr> v = download hs t v"
  "processDirective hs \<lparr>type = ''unzip'', target = t, raw = l\<rparr> v = unzip hs t v"
  "processDirective hs \<lparr>type = ''validate'', target = t, raw = l\<rparr> v = validate hs t v"
  "processDirective hs \<lparr>type = ''implement'', target = t, raw = l\<rparr> v = implement hs t v"
  by (simp_all add: processDirective_def)


lemma runDirectives_all_true:
  "runDirectives pd ds w = (r, evs, w') \<Longrightarrow> list_all reportedTrue evs \<Longrightarrow>
     r = Returned True \<and> List.map_filter directiveOf evs = ds"
proof (induction ds arbitrary: w r evs w')
  case Nil
  then show ?case by (simp add: List.map_filter_simps)
next
  case (Cons d ds)
  obtain x w1 where p: "pd d w = (x, w1)" by (cases "pd d w")
  show ?case
  proof (cases x)
    case (Returned b)
    show ?thesis
    proof (cases b)
      case True
      obtain r1 evs1 w2 where r: "runDirectives pd ds w1 = (r1, evs1, w2)"
        by (cases "runDirectives pd ds w1")
      with Cons.prems p Returned True have e: "evs = Dispatched d (Returned True) # evs1" "r = r1"
        by auto
      with Cons.prems(2) have "list_all reportedTrue evs1" by simp
      from Cons.IH[OF r this] e show ?thesis
        by (simp add: List.map_filter_simps)
    next
      case False
      with Cons.prems p Returned show ?thesis by auto
    qed
  next
    case (Threw e)
    with Cons.prems p show ?thesis by auto
  qed
qed

lemma workflow_all_true:
  assumes "readFile = Returned content"
      and "list_all reportedTrue (events (processWorkflow hs readFile w))"
  shows "succeeded (processWorkflow hs readFile w)
       \<and> dispatched (events (processWorkflow hs readFile w)) = parsePlanText content"
proof (cases "parsePlanText content = []")
  case True
  with assms show ?thesis
    by (simp add: processWorkflow_def parseImplementationPlan_def)
next
  case False
  obtain r evs w' where r: "runDirectives (processDirective hs) (parsePlanText content) w = (r, evs, w')"
    by (cases "runDirectives (processDirective hs) (parsePlanText content) w")
  show ?thesis
  proof (cases r)
    case (Returned b)
    with assms False r have "events (processWorkflow hs readFile w) = evs"
      "succeeded (processWorkflow hs readFile w) = b"
      by (simp_all add: processWorkflow_def parseImplementationPlan_def)
    with assms(2) runDirectives_all_true[OF r] Returned show ?thesis
      by (simp add: dispatched_def)
  next
    case (Threw e)
    with assms False r have "events (processWorkflow hs readFile w) = evs
        \<or> events (processWorkflow hs readFile w) = evs @ [FallbackRun]"
      by (simp add: processWorkflow_def parseImplementationPlan_def caught_def)
    with assms(2) have "list_all reportedTrue evs" by auto
    from runDirectives_all_true[OF r this] Threw show ?thesis by simp
  qed
qed

lemma dispatch_default:
  "type d \<notin> set [''download'', ''unzip'', ''validate'', ''implement''] \<Longrightarrow>
     processDirective hs d v = (Returned False, v)"
  by (simp add: processDirective_def)

text \<open>
  Claim C4. When a handler reports failure for a directive, that call is the last event
  of the run: \<open>processWorkflow\<close> returns \<^verbatim>\<open>false\<close>, the directives dispatched are the parsed
  ones up to and including the failed one, in the parsed order, and the world is left as
  the handlers of exactly these directives leave it, so no handler has run for a later
  directive. In every run the directives dispatched are an initial part of the parsed
  sequence; each call gets the state of the world that the calls before it left, its event
  holds what it returned there, and the run ends in the state after the last call. A
  directive of each of the four kinds is handed to the handler of its kind, with its
  target; a directive of any other kind reports failure and no handler is called. The run
  stops only at a call that does not report \<^verbatim>\<open>true\<close>: when every call of the run reported
  \<^verbatim>\<open>true\<close>, all the parsed directives were dispatched and the run returns \<^verbatim>\<open>true\<close>.
\<close>

theorem fail_fast:
  "(k < length (events (processWorkflow hs readFile w))
      \<and> events (processWorkflow hs readFile w) ! k = Dispatched d (Returned False)
    \<longrightarrow> length (events (processWorkflow hs readFile w)) = Suc k
        \<and> \<not> succeeded (processWorkflow hs readFile w)
        \<and> (\<exists>content. readFile = Returned content
             \<and> dispatched (events (processWorkflow hs readFile w))
                 = take (Suc k) (parsePlanText content)
             \<and> world (processWorkflow hs readFile w)
                 = worldAfter (processDirective hs) (take (Suc k) (parsePlanText content)) w))
   \<and> prefix (dispatched (events (processWorkflow hs readFile w)))
        (case readFile of Returned content \<Rightarrow> parsePlanText content | Threw e \<Rightarrow> [])
   \<and> world (processWorkflow hs readFile w)
        = worldAfter (processDirective hs) (dispatched (events (processWorkflow hs readFile w))) w
   \<and> (\<forall>i<length (dispatched (events (processWorkflow hs readFile w))).
        events (processWorkflow hs readFile w) ! i =
          Dispatched (dispatched (events (processWorkflow hs readFile w)) ! i)
            (fst (processDirective hs (dispatched (events (processWorkflow hs readFile w)) ! i)
               (worldAfter (processDirective hs)
                  (take i (dispatched (events (processWorkflow hs readFile w)))) w))))
   \<and> processDirective hs \<lparr>type = ''download'', target = t, raw = l\<rparr> v = download hs t v
   \<and> processDirective hs \<lparr>type = ''unzip'', target = t, raw = l\<rparr> v = unzip hs t v
   \<and> processDirective hs \<lparr>type = ''validate'', target = t, raw = l\<rparr> v = validate hs t v
   \<and> processDirective hs \<lparr>type = ''implement'', target = t, raw = l\<rparr> v = implement hs t v
   \<and> (type d' \<notin> set [''download'', ''unzip'', ''validate'', ''implement''] \<longrightarrow>
        processDirective hs d' v = (Returned False, v))
   \<and> (readFile = Returned content' \<and> list_all reportedTrue (events (processWorkflow hs readFile w))
        \<longrightarrow> succeeded (processWorkflow hs readFile w)
            \<and> dispatched (events (processWorkflow hs readFile w)) = parsePlanText content')"
proof -
  have b: "type d' \<notin> set [''download'', ''unzip'', ''validate'', ''implement''] \<longrightarrow>
        processDirective hs d' v = (Returned False, v)"
    using dispatch_default[of d' hs v] by blast
  have c: "readFile = Returned content' \<and> list_all reportedTrue (events (processWorkflow hs readFile w))
        \<longrightarrow> succeeded (processWorkflow hs readFile w)
            \<and> dispatched (events (processWorkflow hs readFile w)) = parsePlanText content'"
    using workflow_all_true[of readFile content' hs w] by blast
  have a: "k < length (events (processWorkflow hs readFile w))
      \<and> events (processWorkflow hs readFile w) ! k = Dispatched d (Returned False)
    \<longrightarrow> length (events (processWorkflow hs readFile w)) = Suc k
        \<and> \<not> succeeded (processWorkflow hs readFile w)
        \<and> (\<exists>content. readFile = Returned content
             \<and> dispatched (events (processWorkflow hs readFile w))
                 = take (Suc k) (parsePlanText content)
             \<and> world (processWorkflow hs readFile w)
                 = worldAfter (processDirective hs) (take (Suc k) (parsePlanText content)) w)"
  proof
    assume h: "k < length (events (processWorkflow hs readFile w))
      \<and> events (processWorkflow hs readFile w) ! k = Dispatched d (Returned False)"
    from fail_fast_core[of k hs readFile w d] h
    obtain content where c: "length (events (processWorkflow hs readFile w)) = Suc k"
      "\<not> succeeded (processWorkflow hs readFile w)"
      "readFile = Returned content"
      "dispatched (events (processWorkflow hs readFile w)) = take (Suc k) (parsePlanText content)"
      by blast
    from workflow_world[of hs readFile w] c(4)
    have "world (processWorkflow hs readFile w)
                 = worldAfter (processDirective hs) (take (Suc k) (parsePlanText content)) w"
      by simp
    with c show "length (events (processWorkflow hs readFile w)) = Suc k
        \<and> \<not> succeeded (processWorkflow hs readFile w)
        \<and> (\<exists>content. readFile = Returned content
             \<and> dispatched (events (processWorkflow hs readFile w))
                 = take (Suc k) (parsePlanText content)
             \<and> world (processWorkflow hs readFile w)
                 = worldAfter (processDirective hs) (take (Suc k) (parsePlanText content)) w)"
      by blast
  qed
  from dispatch_order[of hs readFile w] workflow_world[of hs readFile w]
    dispatch_rule[of hs t l v]
  have r: "prefix (dispatched (events (processWorkflow hs readFile w)))
        (case readFile of Returned content \<Rightarrow> parsePlanText content | Threw e \<Rightarrow> [])
   \<and> world (processWorkflow hs readFile w)
        = worldAfter (processDirective hs) (dispatched (events (processWorkflow hs readFile w))) w
   \<and> (\<forall>i<length (dispatched (events (processWorkflow hs readFile w))).
        events (processWorkflow hs readFile w) ! i =
          Dispatched (dispatched (events (processWorkflow hs readFile w)) ! i)
            (fst (processDirective hs (dispatched (events (processWorkflow hs readFile w)) ! i)
               (worldAfter (processDirective hs)
                  (take i (dispatched (events (processWorkflow hs readFile w)))) w))))
   \<and> processDirective hs \<lparr>type = ''download'', target = t, raw = l\<rparr> v = download hs t v
   \<and> processDirective hs \<lparr>type = ''unzip'', target = t, raw = l\<rparr> v = unzip hs t v
   \<and> processDirective hs \<lparr>type = ''validate'', target = t, raw = l\<rparr> v = validate hs t v
   \<and> processDirective hs \<lparr>type = ''implement'', target = t, raw = l\<rparr> v = implement hs t v"
    by simp
  show ?thesis
    apply (rule conjI, rule a)
    apply (rule conjI, rule r[THEN conjunct1])
    apply (rule conjI, rule r[THEN conjunct2, THEN conjunct1])
    apply (rule conjI, rule r[THEN conjunct2, THEN conjunct2, THEN conjunct1])
    apply (rule conjI, rule r[THEN conjunct2, THEN conjunct2, THEN conjunct2, THEN conjunct1])
    apply (rule conjI, rule r[THEN conjunct2, THEN conjunct2, THEN conjunct2, THEN conjunct2,
        THEN conjunct1])
    apply (rule conjI, rule r[THEN conjunct2, THEN conjunct2, THEN conjunct2, THEN conjunct2,
        THEN conjunct2, THEN conjunct1])
    apply (rule conjI, rule r[THEN conjunct2, THEN conjunct2, THEN conjunct2, THEN conjunct2,
        THEN conjunct2, THEN conjunct2])
    apply (rule conjI, rule b)
    apply (rule c)
    done
qed

theorem fail_fast_witness:
  "events (processWorkflow (managerHandlers sampleServices) (Returned stoppedPlan) freshManager) ! 1
      = Dispatched \<lparr>type = ''validate'', target = ''*.md'', raw = ''2. **validate** *.md''\<rparr>
          (Returned False)
   \<and> length (parsePlanText stoppedPlan) = 3
   \<and> length (events (processWorkflow (managerHandlers sampleServices) (Returned stoppedPlan)
                freshManager)) = Suc 1
   \<and> \<not> succeeded (processWorkflow (managerHandlers sampleServices) (Returned stoppedPlan)
                freshManager)
   \<and> world (processWorkflow (managerHandlers sampleServices) (Returned stoppedPlan) freshManager)
       = afterFirstDownload
   \<and> length (downloadHistory afterFirstDownload) = 1
   \<and> list_all reportedTrue
        (events (processWorkflow (managerHandlers sampleServices) (Returned twoStepPlan)
                   freshManager))
   \<and> succeeded (processWorkflow (managerHandlers sampleServices) (Returned twoStepPlan)
                  freshManager)
   \<and> dispatched (events (processWorkflow (managerHandlers sampleServices) (Returned twoStepPlan)
                  freshManager)) = parsePlanText twoStepPlan
   \<and> length (parsePlanText twoStepPlan) = 2
   \<and> processDirective (managerHandlers sampleServices) fetchDirective freshManager
       = (Returned False, freshManager)"
proof -
  let ?run = "processWorkflow (managerHandlers sampleServices) (Returned stoppedPlan) freshManager"
  let ?run2 = "processWorkflow (managerHandlers sampleServices) (Returned twoStepPlan) freshManager"
  have k: "1 < length (events ?run)"
    by code_simp
  have f: "events ?run ! 1
      = Dispatched \<lparr>type = ''validate'', target = ''*.md'', raw = ''2. **validate** *.md''\<rparr>
          (Returned False)"
    by code_simp
  have n: "length (parsePlanText stoppedPlan) = 3"
    by code_simp
  have v: "worldAfter (processDirective (managerHandlers sampleServices))
             (take (Suc 1) (parsePlanText stoppedPlan)) freshManager = afterFirstDownload"
    by code_simp
  have h: "length (downloadHistory afterFirstDownload) = 1"
    by code_simp
  from fail_fast[of 1 "managerHandlers sampleServices" "Returned stoppedPlan" freshManager
      "\<lparr>type = ''validate'', target = ''*.md'', raw = ''2. **validate** *.md''\<rparr>"] k f
  have "length (events ?run) = Suc 1 \<and> \<not> succeeded ?run
      \<and> world ?run = worldAfter (processDirective (managerHandlers sampleServices))
             (take (Suc 1) (parsePlanText stoppedPlan)) freshManager"
    by blast
  with v have 1: "length (events ?run) = Suc 1" and 2: "\<not> succeeded ?run"
    and 3: "world ?run = afterFirstDownload"
    by simp_all
  have a: "list_all reportedTrue (events ?run2)"
    by code_simp
  have m: "length (parsePlanText twoStepPlan) = 2"
    by code_simp
  note t = fail_fast[where hs = "managerHandlers sampleServices"
      and readFile = "Returned twoStepPlan" and w = freshManager and content' = twoStepPlan
      and d' = fetchDirective and v = freshManager]
  have 4: "succeeded ?run2 \<and> dispatched (events ?run2) = parsePlanText twoStepPlan"
    by (rule t[THEN conjunct2, THEN conjunct2, THEN conjunct2, THEN conjunct2, THEN conjunct2,
        THEN conjunct2, THEN conjunct2, THEN conjunct2, THEN conjunct2, THEN mp])
      (rule conjI, rule refl, rule a)
  have u: "type fetchDirective \<notin> set [''download'', ''unzip'', ''validate'', ''implement'']"
    by code_simp
  have 5: "processDirective (managerHandlers sampleServices) fetchDirective freshManager
       = (Returned False, freshManager)"
    by (rule t[THEN conjunct2, THEN conjunct2, THEN conjunct2, THEN conjunct2, THEN conjunct2,
        THEN conjunct2, THEN conjunct2, THEN conjunct2, THEN conjunct1, THEN mp]) (rule u)
  from f n 1 2 3 h a 4 m 5 show ?thesis
    by (intro conjI) (erule conjunct1 conjunct2 | assumption)+
qed

text \<open>
  The scenario of the specification for an expired address: the run fails at the download,
  nothing is dispatched after it, and the history holds the one expiry record.
\<close>

lemma expired_download_stops_the_run:
  "processWorkflow (managerHandlers expiredServices) (Returned expiredPlan) freshManager =
     \<lparr>succeeded = False,
      events = [Dispatched \<lparr>type = ''download'', target = ''https://example.com/expired.zip'',
                   raw = ''1. **download** https://example.com/expired.zip''\<rparr> (Returned False)],
      world = expiredManager\<rparr>"
  by code_simp

lemma fallback_iff_core:
  assumes h: "\<And>d v e v'. processDirective hs d v = (Threw e, v') \<Longrightarrow> \<not> isMissingFile e"
  shows "(FallbackRun \<in> set (events (processWorkflow hs readFile w))
            \<longleftrightarrow> (case readFile of
                   Threw e \<Rightarrow> isMissingFile e
                 | Returned content \<Rightarrow> parsePlanText content = []))
       \<and> (FallbackRun \<in> set (events (processWorkflow hs readFile w)) \<longrightarrow>
            processWorkflow hs readFile w
              = \<lparr>succeeded = True, events = [FallbackRun], world = w\<rparr>)"
proof (cases readFile)
  case (Threw e)
  then show ?thesis
    by (simp add: processWorkflow_def parseImplementationPlan_def caught_def runFallbackFlow_def)
next
  case (Returned content)
  show ?thesis
  proof (cases "parsePlanText content = []")
    case True
    with Returned show ?thesis
      by (simp add: processWorkflow_def parseImplementationPlan_def runFallbackFlow_def)
  next
    case False
    obtain r evs w' where
      run: "runDirectives (processDirective hs) (parsePlanText content) w = (r, evs, w')"
      by (cases "runDirectives (processDirective hs) (parsePlanText content) w") auto
    have nf: "FallbackRun \<notin> set evs"
      using run by (rule runDirectives_no_fallback)
    have "FallbackRun \<notin> set (events (processWorkflow hs readFile w))"
    proof (cases r)
      case (Returned b)
      with \<open>readFile = Returned content\<close> False run nf show ?thesis
        by (simp add: processWorkflow_def parseImplementationPlan_def)
    next
      case (Threw e)
      with run
      have "runDirectives (processDirective hs) (parsePlanText content) w = (Threw e, evs, w')"
        by simp
      from runDirectives_Threw[OF this]
      obtain d v v' where "processDirective hs d v = (Threw e, v')"
        by blast
      then have "\<not> isMissingFile e" by (rule h)
      with Threw \<open>readFile = Returned content\<close> False run nf show ?thesis
        by (simp add: processWorkflow_def parseImplementationPlan_def caught_def)
    qed
    with Returned False show ?thesis by simp
  qed
qed

lemma unzip_noDisk_returns: "promise (processUnzip noDisk t this) = Returned False"
  by (simp add: processUnzip_def noDisk_def unzipFailed_def Let_def split: option.splits)

lemma sample_handlers_return:
  "processDirective (managerHandlers sampleServices) d v = (Threw e, v') \<Longrightarrow> \<not> isMissingFile e"
  by (auto simp: processDirective_def managerHandlers_def sampleServices_def unzip_noDisk_returns
      split: if_splits prod.splits option.splits)

lemma fallback_last:
  "FallbackRun \<in> set (events (processWorkflow hs readFile w)) \<Longrightarrow>
     succeeded (processWorkflow hs readFile w)
     \<and> last (events (processWorkflow hs readFile w)) = FallbackRun
     \<and> FallbackRun \<notin> set (butlast (events (processWorkflow hs readFile w)))"
proof (cases readFile)
  case (Threw e)
  assume "FallbackRun \<in> set (events (processWorkflow hs readFile w))"
  with Threw show ?thesis
    by (auto simp: processWorkflow_def parseImplementationPlan_def caught_def runFallbackFlow_def
        split: if_splits)
next
  case (Returned content)
  assume f: "FallbackRun \<in> set (events (processWorkflow hs readFile w))"
  show ?thesis
  proof (cases "parsePlanText content = []")
    case True
    with Returned show ?thesis
      by (simp add: processWorkflow_def parseImplementationPlan_def runFallbackFlow_def)
  next
    case False
    obtain r evs w' where
      run: "runDirectives (processDirective hs) (parsePlanText content) w = (r, evs, w')"
      by (cases "runDirectives (processDirective hs) (parsePlanText content) w") auto
    have nf: "FallbackRun \<notin> set evs"
      using run by (rule runDirectives_no_fallback)
    show ?thesis
    proof (cases r)
      case (Returned b)
      from workflow_events(2)[OF \<open>readFile = Returned content\<close> False run Returned] f nf
      show ?thesis by simp
    next
      case (Threw e)
      from workflow_events(3)[OF \<open>readFile = Returned content\<close> False run Threw] f nf
      show ?thesis
        by (auto simp: caught_def runFallbackFlow_def split: if_splits)
    qed
  qed
qed

lemma read_failure_paths:
  "readFile = Threw e \<Longrightarrow> \<not> isMissingFile e \<Longrightarrow>
     processWorkflow hs readFile w = \<lparr>succeeded = False, events = [], world = w\<rparr>"
  "readFile = Threw e \<Longrightarrow> isMissingFile e \<Longrightarrow>
     processWorkflow hs readFile w = \<lparr>succeeded = True, events = [FallbackRun], world = w\<rparr>"
  "readFile = Returned content \<Longrightarrow> parsePlanText content = [] \<Longrightarrow>
     processWorkflow hs readFile w = \<lparr>succeeded = True, events = [FallbackRun], world = w\<rparr>"
  by (simp_all add: processWorkflow_def parseImplementationPlan_def caught_def runFallbackFlow_def)

lemma isMissingFile_iff:
  "isMissingFile e \<longleftrightarrow> (\<exists>n a b. e = ErrorObject n (a @ ''ENOENT'' @ b))"
proof (cases e)
  case (ErrorObject n m)
  then show ?thesis by (simp add: strIncludes_iff)
next
  case (ThrownValue v)
  then show ?thesis by simp
qed

text \<open>
  Claim C3, as amended. With handlers that do not themselves throw an \<^verbatim>\<open>Error\<close> whose message
  holds \<^verbatim>\<open>ENOENT\<close>, \<open>processWorkflow\<close> calls the fallback flow exactly when reading the plan
  throws such an error, or the plan is read and no directive is parsed from it; so it never
  calls the fallback when at least one directive is parsed. Whatever the handlers do: a
  failure to read the plan with any other error ends the run with \<^verbatim>\<open>false\<close>, without the
  fallback and without a call of a handler; a missing plan and a plan without directives
  each end the run with \<^verbatim>\<open>true\<close> after the fallback alone, the world unchanged; and in every
  run that calls the fallback, the fallback is the last step, it is called once, and the
  run returns \<^verbatim>\<open>true\<close>. The error of a missing file is an \<^verbatim>\<open>Error\<close> object whose message holds
  the text \<^verbatim>\<open>ENOENT\<close>; a thrown value that is no \<^verbatim>\<open>Error\<close> object is never one.
\<close>

theorem fallback_iff:
  "((\<forall>d v e v'. processDirective hs d v = (Threw e, v') \<longrightarrow> \<not> isMissingFile e) \<longrightarrow>
      (FallbackRun \<in> set (events (processWorkflow hs readFile w))
         \<longleftrightarrow> (case readFile of
                Threw e \<Rightarrow> isMissingFile e
              | Returned content \<Rightarrow> parsePlanText content = [])))
   \<and> (\<forall>e. readFile = Threw e \<and> \<not> isMissingFile e \<longrightarrow>
         processWorkflow hs readFile w = \<lparr>succeeded = False, events = [], world = w\<rparr>)
   \<and> (\<forall>e. readFile = Threw e \<and> isMissingFile e \<longrightarrow>
         processWorkflow hs readFile w = \<lparr>succeeded = True, events = [FallbackRun], world = w\<rparr>)
   \<and> (\<forall>content. readFile = Returned content \<and> parsePlanText content = [] \<longrightarrow>
         processWorkflow hs readFile w = \<lparr>succeeded = True, events = [FallbackRun], world = w\<rparr>)
   \<and> (FallbackRun \<in> set (events (processWorkflow hs readFile w)) \<longrightarrow>
         succeeded (processWorkflow hs readFile w)
         \<and> last (events (processWorkflow hs readFile w)) = FallbackRun
         \<and> FallbackRun \<notin> set (butlast (events (processWorkflow hs readFile w))))
   \<and> (isMissingFile err \<longleftrightarrow> (\<exists>n a b. err = ErrorObject n (a @ ''ENOENT'' @ b)))"
proof -
  have 6: "isMissingFile err \<longleftrightarrow> (\<exists>n a b. err = ErrorObject n (a @ ''ENOENT'' @ b))"
    by (rule isMissingFile_iff)
  have 1: "(\<forall>d v e v'. processDirective hs d v = (Threw e, v') \<longrightarrow> \<not> isMissingFile e) \<longrightarrow>
      (FallbackRun \<in> set (events (processWorkflow hs readFile w))
         \<longleftrightarrow> (case readFile of
                Threw e \<Rightarrow> isMissingFile e
              | Returned content \<Rightarrow> parsePlanText content = []))"
  proof
    assume h: "\<forall>d v e v'. processDirective hs d v = (Threw e, v') \<longrightarrow> \<not> isMissingFile e"
    then have "\<And>d v e v'. processDirective hs d v = (Threw e, v') \<Longrightarrow> \<not> isMissingFile e"
      by blast
    from fallback_iff_core[of hs readFile w, OF this]
    show "FallbackRun \<in> set (events (processWorkflow hs readFile w))
         \<longleftrightarrow> (case readFile of
                Threw e \<Rightarrow> isMissingFile e
              | Returned content \<Rightarrow> parsePlanText content = [])"
      by (rule conjunct1)
  qed
  have 2: "\<forall>e. readFile = Threw e \<and> \<not> isMissingFile e \<longrightarrow>
         processWorkflow hs readFile w = \<lparr>succeeded = False, events = [], world = w\<rparr>"
    using read_failure_paths(1)[of readFile _ hs w] by blast
  have 3: "\<forall>e. readFile = Threw e \<and> isMissingFile e \<longrightarrow>
         processWorkflow hs readFile w = \<lparr>succeeded = True, events = [FallbackRun], world = w\<rparr>"
    using read_failure_paths(2)[of readFile _ hs w] by blast
  have 4: "\<forall>content. readFile = Returned content \<and> parsePlanText content = [] \<longrightarrow>
         processWorkflow hs readFile w = \<lparr>succeeded = True, events = [FallbackRun], world = w\<rparr>"
    using read_failure_paths(3)[of readFile _ hs w] by blast
  have 5: "FallbackRun \<in> set (events (processWorkflow hs readFile w)) \<longrightarrow>
         succeeded (processWorkflow hs readFile w)
         \<and> last (events (processWorkflow hs readFile w)) = FallbackRun
         \<and> FallbackRun \<notin> set (butlast (events (processWorkflow hs readFile w)))"
    using fallback_last[of hs readFile w] by blast
  from 1 2 3 4 5 6 show ?thesis by (intro conjI)
qed

theorem fallback_iff_witness:
  "processWorkflow (managerHandlers sampleServices) (Threw missingPlan) freshManager =
      \<lparr>succeeded = True, events = [FallbackRun], world = freshManager\<rparr>
   \<and> processWorkflow (managerHandlers sampleServices) (Returned ''# Empty plan'') freshManager =
      \<lparr>succeeded = True, events = [FallbackRun], world = freshManager\<rparr>
   \<and> processWorkflow (managerHandlers sampleServices) (Threw isDirectory) freshManager =
      \<lparr>succeeded = False, events = [], world = freshManager\<rparr>
   \<and> FallbackRun \<notin> set (events (processWorkflow (managerHandlers sampleServices)
                                 (Returned samplePlan) freshManager))
   \<and> last (events (processWorkflow throwingHandlers (Returned repeatingPlan) ())) = FallbackRun
   \<and> succeeded (processWorkflow throwingHandlers (Returned repeatingPlan) ())"
proof -
  have a: "isMissingFile missingPlan" by code_simp
  have b: "parsePlanText ''# Empty plan'' = []" by code_simp
  have c: "parsePlanText samplePlan \<noteq> []" by code_simp
  have d: "\<not> isMissingFile isDirectory" by code_simp
  have e: "FallbackRun \<in> set (events (processWorkflow throwingHandlers (Returned repeatingPlan) ()))"
    by code_simp
  have h: "\<forall>d v e v'. processDirective (managerHandlers sampleServices) d v = (Threw e, v')
             \<longrightarrow> \<not> isMissingFile e"
    using sample_handlers_return by blast
  have 1: "processWorkflow (managerHandlers sampleServices) (Threw missingPlan) freshManager =
      \<lparr>succeeded = True, events = [FallbackRun], world = freshManager\<rparr>"
    using fallback_iff[where hs = "managerHandlers sampleServices"
        and readFile = "Threw missingPlan" and w = freshManager] a
    by blast
  have 2: "processWorkflow (managerHandlers sampleServices) (Returned ''# Empty plan'') freshManager =
      \<lparr>succeeded = True, events = [FallbackRun], world = freshManager\<rparr>"
    using fallback_iff[where hs = "managerHandlers sampleServices"
        and readFile = "Returned ''# Empty plan''" and w = freshManager] b
    by blast
  have 3: "processWorkflow (managerHandlers sampleServices) (Threw isDirectory) freshManager =
      \<lparr>succeeded = False, events = [], world = freshManager\<rparr>"
    using fallback_iff[where hs = "managerHandlers sampleServices"
        and readFile = "Threw isDirectory" and w = freshManager] d
    by blast
  have "FallbackRun \<in> set (events (processWorkflow (managerHandlers sampleServices)
                                 (Returned samplePlan) freshManager))
        \<longleftrightarrow> parsePlanText samplePlan = []"
    using fallback_iff[where hs = "managerHandlers sampleServices"
        and readFile = "Returned samplePlan" and w = freshManager] h
    by simp
  with c have 4: "FallbackRun \<notin> set (events (processWorkflow (managerHandlers sampleServices)
                                 (Returned samplePlan) freshManager))"
    by simp
  have 5: "last (events (processWorkflow throwingHandlers (Returned repeatingPlan) ())) = FallbackRun
      \<and> succeeded (processWorkflow throwingHandlers (Returned repeatingPlan) ())"
    using fallback_iff[where hs = throwingHandlers
        and readFile = "Returned repeatingPlan" and w = "()"] e
    by blast
  from 1 2 3 4 5 show ?thesis by (simp only: simp_thms)
qed

theorem fallback_counterexample:
  "processWorkflow (managerHandlers sampleServices) (Threw permissionDenied) freshManager
     = \<lparr>succeeded = False, events = [], world = freshManager\<rparr>"
  by (simp add: processWorkflow_def parseImplementationPlan_def caught_def permissionDenied_def)

text \<open>
  The \<^verbatim>\<open>try\<close> block of \<open>processWorkflow\<close> holds the loop as well as the parser. The
  handlers of the repository catch their own errors; a handler that did let an error with
  \<^verbatim>\<open>ENOENT\<close> in its message escape would end the run in the fallback, after the directives
  dispatched so far.
\<close>

lemma handler_error_reaches_the_catch:
  "events (processWorkflow throwingHandlers (Returned repeatingPlan) ())
     = [Dispatched unzipOut (Threw missingPlan), FallbackRun]
   \<and> succeeded (processWorkflow throwingHandlers (Returned repeatingPlan) ())"
  by code_simp

section \<open>The root of validation\<close>

lemma basePath_not_read:
  "validatePatternsTool io pattern basePath = validatePatternsTool io pattern None"
  by (simp add: validatePatternsTool_def)

lemma targetPath_is_read:
  "t \<noteq> [] \<Longrightarrow> extractArchiveTool io (Some t) this = processUnzip io t this"
  by (simp add: extractArchiveTool_def)

text \<open>
  Claim C7. Validation searches the fixed directory \<^verbatim>\<open>documentation\<close>, and a caller cannot
  choose another root: the tool \<^verbatim>\<open>validate_patterns\<close> declares an argument \<^verbatim>\<open>basePath\<close>, the
  base directory to search in, but its handler passes only the pattern on. On a file system
  where \<^verbatim>\<open>out\<close> holds \<^verbatim>\<open>a.md\<close> and there is no directory \<^verbatim>\<open>documentation\<close>, the call with the
  pattern \<^verbatim>\<open>*.md\<close> and the base path \<^verbatim>\<open>out\<close> answers that validation failed, while the same
  search rooted at \<^verbatim>\<open>out\<close> finds a file.
\<close>

theorem validate_patterns_ignores_basePath:
  "validatePatternsTool outOnly ''*.md'' (Some ''out'') = Some ''Pattern validation failed for: *.md''
   \<and> validateAt outOnly ''out'' ''*.md'' = Some True
   \<and> glob ''*.md'' [FileEntry ''a.md'', DirEntry ''sub'' [FileEntry ''b.md'']] = Some [''a.md'']"
proof -
  have 1: "validatePatternsTool outOnly ''*.md'' (Some ''out'')
             = Some ''Pattern validation failed for: *.md''"
    by code_simp
  have 2: "validateAt outOnly ''out'' ''*.md'' = Some True"
    by code_simp
  have 3: "glob ''*.md'' [FileEntry ''a.md'', DirEntry ''sub'' [FileEntry ''b.md'']] = Some [''a.md'']"
    by code_simp
  from 1 2 3 show ?thesis by (simp only: simp_thms)
qed

section \<open>The copy of the history\<close>

lemma get_fresh:
  assumes "heapOk this h" "getDownloadHistoryRef this h = (a, h1)"
  shows "a \<noteq> historyRef this" and "contentsOf h1 a = historyOf this h"
    and "historyOf this h1 = historyOf this h" and "heapOk this h1"
  using assms
  by (auto simp: heapOk_def getDownloadHistoryRef_def newArray_def contentsOf_def historyOf_def
      elementsOf_def list_all_iff split: option.splits)

lemma assign_other:
  assumes "a \<noteq> historyRef this"
  shows "historyOf this (arrayAssign a elems h) = historyOf this h"
    and "heapOk this h \<Longrightarrow> heapOk this (arrayAssign a elems h)"
  using assms
  by (auto simp: arrayAssign_def contentsOf_def historyOf_def elementsOf_def heapOk_def)

lemma copy_shares_records:
  "getDownloadHistoryRef this h = (a, h1) \<Longrightarrow>
     elementsOf h1 a = elementsOf h (historyRef this) \<and> records h1 = records h"
  by (auto simp: getDownloadHistoryRef_def newArray_def elementsOf_def)

lemma get_contents:
  "contentsOf (snd (getDownloadHistoryRef this h)) (fst (getDownloadHistoryRef this h))
     = historyOf this h"
  by (auto simp: getDownloadHistoryRef_def newArray_def contentsOf_def historyOf_def elementsOf_def)

lemma push_appends:
  assumes "heapOk this h"
  shows "historyOf this (pushResultRef r this h) = historyOf this h @ [Some r]"
    and "heapOk this (pushResultRef r this h)"
  using assms
  by (auto simp: heapOk_def pushResultRef_def newRecord_def contentsOf_def historyOf_def
      elementsOf_def list_all_iff split: option.splits)

lemma clear_empties:
  assumes "clearDownloadHistoryRef this h = (this', h')"
  shows "historyOf this' h' = []" and "heapOk this' h'"
  using assms
  by (auto simp: clearDownloadHistoryRef_def newArray_def contentsOf_def historyOf_def
      elementsOf_def heapOk_def)

lemma newManager_ok:
  assumes "newManager h = (this, h')"
  shows "heapOk this h'" and "historyOf this h' = []"
  using assms
  by (auto simp: newManager_def newArray_def contentsOf_def historyOf_def elementsOf_def heapOk_def)

lemma heap_history_refines:
  assumes "heapOk this h" "historyOf this h = map Some (downloadHistory m)"
  shows "historyOf this (pushResultRef r this h) = map Some (downloadHistory (pushResult r m))"
    and "contentsOf (snd (getDownloadHistoryRef this h)) (fst (getDownloadHistoryRef this h))
           = map Some (getDownloadHistory m)"
    and "historyOf (fst (clearDownloadHistoryRef this h)) (snd (clearDownloadHistoryRef this h))
           = map Some (downloadHistory (clearDownloadHistory m))"
proof -
  show "historyOf this (pushResultRef r this h) = map Some (downloadHistory (pushResult r m))"
    using assms by (simp add: push_appends(1) pushResult_def)
  show "contentsOf (snd (getDownloadHistoryRef this h)) (fst (getDownloadHistoryRef this h))
           = map Some (getDownloadHistory m)"
    using assms by (simp add: get_contents getDownloadHistory_def)
  have "historyOf (fst (clearDownloadHistoryRef this h)) (snd (clearDownloadHistoryRef this h)) = []"
    by (rule clear_empties(1)) simp
  then show "historyOf (fst (clearDownloadHistoryRef this h)) (snd (clearDownloadHistoryRef this h))
           = map Some (downloadHistory (clearDownloadHistory m))"
    by (simp add: clearDownloadHistory_def)
qed

lemma step_invariant:
  assumes ok: "heapOk (sessMgr s) (sessHeap s)"
      and lt: "list_all (\<lambda>a. a < nextRef (sessHeap s)) (sessCopies s)"
      and d: "distinct (historyRef (sessMgr s) # sessCopies s)"
      and hist: "historyNow s = map Some (downloadHistory m)"
  shows "heapOk (sessMgr (step c s)) (sessHeap (step c s))
       \<and> list_all (\<lambda>a. a < nextRef (sessHeap (step c s))) (sessCopies (step c s))
       \<and> distinct (historyRef (sessMgr (step c s)) # sessCopies (step c s))
       \<and> historyNow (step c s) = map Some (downloadHistory (ledgerStep c m))"
proof (cases c)
  case CallGet
  obtain a h1 where g: "getDownloadHistoryRef (sessMgr s) (sessHeap s) = (a, h1)"
    by (cases "getDownloadHistoryRef (sessMgr s) (sessHeap s)")
  then have a: "a = nextRef (sessHeap s)" and n: "nextRef h1 = Suc (nextRef (sessHeap s))"
    by (auto simp: getDownloadHistoryRef_def newArray_def)
  note f = get_fresh[OF ok g]
  from lt a have "a \<notin> set (sessCopies s)"
    by (auto simp: list_all_iff)
  moreover from lt n have "list_all (\<lambda>a. a < nextRef h1) (sessCopies s)"
    by (auto simp: list_all_iff)
  ultimately show ?thesis
    using CallGet g f d hist a n by (auto simp: historyNow_def)
next
  case (CallPush r)
  have n: "nextRef (pushResultRef r (sessMgr s) (sessHeap s)) = Suc (nextRef (sessHeap s))"
    by (simp add: pushResultRef_def newRecord_def)
  with lt have "list_all (\<lambda>a. a < nextRef (pushResultRef r (sessMgr s) (sessHeap s))) (sessCopies s)"
    by (auto simp: list_all_iff)
  then show ?thesis
    using CallPush push_appends[OF ok, of r] d hist
    by (simp add: historyNow_def pushResult_def)
next
  case CallClear
  obtain this' h1 where g: "clearDownloadHistoryRef (sessMgr s) (sessHeap s) = (this', h1)"
    by (cases "clearDownloadHistoryRef (sessMgr s) (sessHeap s)")
  then have a: "historyRef this' = nextRef (sessHeap s)"
    and n: "nextRef h1 = Suc (nextRef (sessHeap s))"
    by (auto simp: clearDownloadHistoryRef_def newArray_def)
  from lt a have "historyRef this' \<notin> set (sessCopies s)"
    by (auto simp: list_all_iff)
  moreover from lt n have "list_all (\<lambda>a. a < nextRef h1) (sessCopies s)"
    by (auto simp: list_all_iff)
  ultimately show ?thesis
    using CallClear g clear_empties[OF g] d
    by (simp add: historyNow_def clearDownloadHistory_def)
next
  case (CallerWrite i elems)
  show ?thesis
  proof (cases "i < length (sessCopies s)")
    case True
    with d have ne: "sessCopies s ! i \<noteq> historyRef (sessMgr s)"
      by (metis distinct.simps(2) nth_mem)
    have "nextRef (arrayAssign (sessCopies s ! i) elems (sessHeap s)) = nextRef (sessHeap s)"
      by (simp add: arrayAssign_def)
    with True CallerWrite assign_other[OF ne, where elems = elems and h = "sessHeap s"] ok lt d hist show ?thesis
      by (simp add: historyNow_def)
  next
    case False
    with CallerWrite ok lt d hist show ?thesis by simp
  qed
qed

lemma session_snoc: "session h0 (cs @ [c]) = step c (session h0 cs)"
  by (simp add: session_def runCalls_def)

lemma ledgerAfter_snoc: "ledgerAfter (cs @ [c]) m = ledgerStep c (ledgerAfter cs m)"
  by (simp add: ledgerAfter_def)

lemma session_invariant:
  assumes "downloadHistory m = []"
  shows "heapOk (sessMgr (session h0 cs)) (sessHeap (session h0 cs))
       \<and> list_all (\<lambda>a. a < nextRef (sessHeap (session h0 cs))) (sessCopies (session h0 cs))
       \<and> distinct (historyRef (sessMgr (session h0 cs)) # sessCopies (session h0 cs))
       \<and> historyNow (session h0 cs) = map Some (downloadHistory (ledgerAfter cs m))"
proof (induction cs rule: rev_induct)
  case Nil
  obtain this h where n: "newManager h0 = (this, h)"
    by (cases "newManager h0")
  from newManager_ok[OF n] n assms show ?case
    by (simp add: session_def runCalls_def startSession_def historyNow_def ledgerAfter_def)
next
  case (snoc c cs)
  then show ?case
    using step_invariant[of "session h0 cs" "ledgerAfter cs m" c]
    by (simp only: session_snoc ledgerAfter_snoc)
qed

lemma ledgerAfter_writes:
  "list_all isCallerWrite ws \<Longrightarrow> ledgerAfter (cs @ ws) m = ledgerAfter cs m"
proof (induction ws rule: rev_induct)
  case Nil
  then show ?case by simp
next
  case (snoc w ws)
  then have "isCallerWrite w" "ledgerAfter (cs @ ws) m = ledgerAfter cs m" by simp_all
  then show ?case
    by (cases w) (simp_all add: ledgerAfter_snoc[of "cs @ ws", simplified])
qed

lemma get_step:
  assumes ok: "heapOk (sessMgr s) (sessHeap s)"
  shows "sessMgr (step CallGet s) = sessMgr s"
    and "sessCopies (step CallGet s) = sessCopies s @ [latestCopy (step CallGet s)]"
    and "nextRef (sessHeap s) \<le> latestCopy (step CallGet s)"
    and "latestCopy (step CallGet s) < nextRef (sessHeap (step CallGet s))"
    and "contentsOf (sessHeap (step CallGet s)) (latestCopy (step CallGet s)) = historyNow s"
    and "historyNow (step CallGet s) = historyNow s"
proof -
  obtain a h1 where g: "getDownloadHistoryRef (sessMgr s) (sessHeap s) = (a, h1)"
    by (cases "getDownloadHistoryRef (sessMgr s) (sessHeap s)")
  then have a: "a = nextRef (sessHeap s)" and n: "nextRef h1 = Suc (nextRef (sessHeap s))"
    by (auto simp: getDownloadHistoryRef_def newArray_def)
  note f = get_fresh[OF ok g]
  from g show "sessMgr (step CallGet s) = sessMgr s" by simp
  from g show "sessCopies (step CallGet s) = sessCopies s @ [latestCopy (step CallGet s)]"
    by (simp add: latestCopy_def)
  from g a show "nextRef (sessHeap s) \<le> latestCopy (step CallGet s)"
    by (simp add: latestCopy_def)
  from g a n show "latestCopy (step CallGet s) < nextRef (sessHeap (step CallGet s))"
    by (simp add: latestCopy_def)
  from g f show "contentsOf (sessHeap (step CallGet s)) (latestCopy (step CallGet s)) = historyNow s"
    by (simp add: latestCopy_def historyNow_def)
  from g f show "historyNow (step CallGet s) = historyNow s"
    by (simp add: historyNow_def)
qed

text \<open>
  Claim C10. Take a manager that was made on any heap and has seen any sequence of calls.
  Its history holds the records that the pure model gives for the appends and clears among
  those calls, in their order: a call of \<open>getDownloadHistory\<close> and a write of a caller to an
  array it was handed do not change it. The manager's array and the arrays handed out are
  all different from one another. A call of \<open>getDownloadHistory\<close> then returns a fresh
  array: its reference was not in use before the call (it is not below \<open>nextRef\<close>, where
  all the references in use lie), it is in use after, and it is none of the manager's array
  and the arrays handed out earlier; the array holds the records of the history in their
  order, and the history is left as it is. After any writes of callers to the arrays they
  hold, the history is still the same, and a next \<open>getDownloadHistory\<close> returns the same
  records again. An append adds one record at the end, a clear empties the history. The
  copy is shallow: it holds the same references to records (\<open>copy_shares_records\<close>), and the
  statement is about changes to the arrays, not to a record in them.
\<close>

theorem history_copy_isolated:
  "historyNow (session h0 cs) =
     map Some (downloadHistory
       (ledgerAfter cs \<lparr>implementationPlanPath = p, downloadHistory = []\<rparr>))
   \<and> distinct (historyRef (sessMgr (session h0 cs)) # sessCopies (session h0 cs))
   \<and> list_all (\<lambda>a. a < nextRef (sessHeap (session h0 cs)))
        (historyRef (sessMgr (session h0 cs)) # sessCopies (session h0 cs))
   \<and> sessCopies (session h0 (cs @ [CallGet])) =
        sessCopies (session h0 cs) @ [latestCopy (session h0 (cs @ [CallGet]))]
   \<and> latestCopy (session h0 (cs @ [CallGet]))
        \<notin> set (historyRef (sessMgr (session h0 cs)) # sessCopies (session h0 cs))
   \<and> nextRef (sessHeap (session h0 cs)) \<le> latestCopy (session h0 (cs @ [CallGet]))
   \<and> latestCopy (session h0 (cs @ [CallGet])) < nextRef (sessHeap (session h0 (cs @ [CallGet])))
   \<and> contentsOf (sessHeap (session h0 (cs @ [CallGet]))) (latestCopy (session h0 (cs @ [CallGet])))
        = historyNow (session h0 cs)
   \<and> historyNow (session h0 (cs @ [CallGet])) = historyNow (session h0 cs)
   \<and> historyNow (session h0 (cs @ [CallerWrite i elems])) = historyNow (session h0 cs)
   \<and> (list_all isCallerWrite ws \<longrightarrow>
        historyNow (session h0 (cs @ [CallGet] @ ws)) = historyNow (session h0 cs)
        \<and> contentsOf (sessHeap (session h0 (cs @ [CallGet] @ ws @ [CallGet])))
             (latestCopy (session h0 (cs @ [CallGet] @ ws @ [CallGet])))
            = historyNow (session h0 cs))
   \<and> historyNow (session h0 (cs @ [CallPush r])) = historyNow (session h0 cs) @ [Some r]
   \<and> historyNow (session h0 (cs @ [CallClear])) = []"
proof -
  let ?m = "\<lparr>implementationPlanPath = p, downloadHistory = []\<rparr> :: 'a DocWorkflowManager"
  have m: "downloadHistory ?m = []" by simp
  note inv = session_invariant[OF m]
  note i0 = inv[of h0 cs]
  from i0 have ok: "heapOk (sessMgr (session h0 cs)) (sessHeap (session h0 cs))"
    by (rule conjunct1)
  note g = get_step[OF ok, folded session_snoc]
  have 1: "historyNow (session h0 cs) = map Some (downloadHistory (ledgerAfter cs ?m))"
    using i0 by blast
  have 2: "distinct (historyRef (sessMgr (session h0 cs)) # sessCopies (session h0 cs))"
    using i0 by blast
  have 3: "list_all (\<lambda>a. a < nextRef (sessHeap (session h0 cs)))
        (historyRef (sessMgr (session h0 cs)) # sessCopies (session h0 cs))"
    using i0 by (simp add: heapOk_def)
  have "distinct (historyRef (sessMgr (session h0 (cs @ [CallGet])))
          # sessCopies (session h0 (cs @ [CallGet])))"
    using inv[of h0 "cs @ [CallGet]"] by blast
  then have "distinct (historyRef (sessMgr (session h0 cs))
          # sessCopies (session h0 cs) @ [latestCopy (session h0 (cs @ [CallGet]))])"
    using g(1) g(2) by simp
  then have 5: "latestCopy (session h0 (cs @ [CallGet]))
        \<notin> set (historyRef (sessMgr (session h0 cs)) # sessCopies (session h0 cs))"
    by auto
  have 10: "historyNow (session h0 (cs @ [CallerWrite i elems])) = historyNow (session h0 cs)"
    using inv[of h0 "cs @ [CallerWrite i elems]"] 1 by (simp add: ledgerAfter_snoc)
  have 11: "list_all isCallerWrite ws \<longrightarrow>
        historyNow (session h0 (cs @ [CallGet] @ ws)) = historyNow (session h0 cs)
        \<and> contentsOf (sessHeap (session h0 (cs @ [CallGet] @ ws @ [CallGet])))
             (latestCopy (session h0 (cs @ [CallGet] @ ws @ [CallGet])))
            = historyNow (session h0 cs)"
  proof
    assume w: "list_all isCallerWrite ws"
    have a: "historyNow (session h0 (cs @ [CallGet] @ ws)) = historyNow (session h0 cs)"
      using inv[of h0 "(cs @ [CallGet]) @ ws"] 1 ledgerAfter_writes[OF w, of "cs @ [CallGet]" ?m]
      by (simp add: ledgerAfter_snoc)
    have "heapOk (sessMgr (session h0 (cs @ [CallGet] @ ws)))
        (sessHeap (session h0 (cs @ [CallGet] @ ws)))"
      using inv[of h0 "cs @ [CallGet] @ ws"] by blast
    from get_step(5)[OF this, folded session_snoc] a
    have "contentsOf (sessHeap (session h0 ((cs @ [CallGet] @ ws) @ [CallGet])))
             (latestCopy (session h0 ((cs @ [CallGet] @ ws) @ [CallGet])))
            = historyNow (session h0 cs)"
      by simp
    with a show "historyNow (session h0 (cs @ [CallGet] @ ws)) = historyNow (session h0 cs)
        \<and> contentsOf (sessHeap (session h0 (cs @ [CallGet] @ ws @ [CallGet])))
             (latestCopy (session h0 (cs @ [CallGet] @ ws @ [CallGet])))
            = historyNow (session h0 cs)"
      by simp
  qed
  have 12: "historyNow (session h0 (cs @ [CallPush r])) = historyNow (session h0 cs) @ [Some r]"
    using inv[of h0 "cs @ [CallPush r]"] 1 by (simp add: ledgerAfter_snoc pushResult_def)
  have 13: "historyNow (session h0 (cs @ [CallClear])) = []"
    using inv[of h0 "cs @ [CallClear]"] by (simp add: ledgerAfter_snoc clearDownloadHistory_def)
  from 1 2 3 g(2) 5 g(3) g(4) g(5) g(6) 10 11 12 13 show ?thesis
    by (intro conjI)
qed

theorem history_copy_isolated_witness:
  "list_all isCallerWrite callerWrites
   \<and> historyNow (session emptyHeap sessionCalls) = [Some textRecord]
   \<and> historyNow (session emptyHeap (sessionCalls @ [CallGet] @ callerWrites)) = [Some textRecord]
   \<and> contentsOf (sessHeap (session emptyHeap (sessionCalls @ [CallGet] @ callerWrites @ [CallGet])))
        (latestCopy (session emptyHeap (sessionCalls @ [CallGet] @ callerWrites @ [CallGet])))
       = [Some textRecord]
   \<and> contentsOf (sessHeap (session emptyHeap (sessionCalls @ [CallGet] @ callerWrites)))
        (latestCopy (session emptyHeap (sessionCalls @ [CallGet]))) = []
   \<and> historyRef (sessMgr (session emptyHeap sessionCalls)) = 3
   \<and> sessCopies (session emptyHeap (sessionCalls @ [CallGet])) = [2, 5]"
proof -
  have w: "list_all isCallerWrite callerWrites"
    by (simp add: callerWrites_def)
  have h: "historyNow (session emptyHeap sessionCalls) = [Some textRecord]"
    by code_simp
  have c: "contentsOf (sessHeap (session emptyHeap (sessionCalls @ [CallGet] @ callerWrites)))
        (latestCopy (session emptyHeap (sessionCalls @ [CallGet]))) = []"
    by code_simp
  have r: "historyRef (sessMgr (session emptyHeap sessionCalls)) = 3"
    by code_simp
  have k: "sessCopies (session emptyHeap (sessionCalls @ [CallGet])) = [2, 5]"
    by code_simp
  note t = history_copy_isolated[where ?h0.0 = emptyHeap and cs = sessionCalls
      and ws = callerWrites]
  from t[THEN conjunct2, THEN conjunct2, THEN conjunct2, THEN conjunct2, THEN conjunct2,
      THEN conjunct2, THEN conjunct2, THEN conjunct2, THEN conjunct2, THEN conjunct2,
      THEN conjunct1, THEN mp, OF w]
  have "historyNow (session emptyHeap (sessionCalls @ [CallGet] @ callerWrites))
          = historyNow (session emptyHeap sessionCalls)
      \<and> contentsOf (sessHeap (session emptyHeap (sessionCalls @ [CallGet] @ callerWrites @ [CallGet])))
          (latestCopy (session emptyHeap (sessionCalls @ [CallGet] @ callerWrites @ [CallGet])))
         = historyNow (session emptyHeap sessionCalls)" .
  then have 3: "historyNow (session emptyHeap (sessionCalls @ [CallGet] @ callerWrites))
          = [Some textRecord]"
    and 4: "contentsOf (sessHeap (session emptyHeap (sessionCalls @ [CallGet] @ callerWrites @ [CallGet])))
          (latestCopy (session emptyHeap (sessionCalls @ [CallGet] @ callerWrites @ [CallGet])))
         = [Some textRecord]"
    by (simp_all only: h)
  from w h 3 4 c r k show ?thesis by (intro conjI)
qed

end
